(* ===== verification/Prelude.thy ===== *)
theory Prelude
  imports Main "HOL-Library.Word"
begin

text \<open>
  Shared vocabulary of the development.

  \<^item> \<open>fault\<close> and \<open>outcome\<close>: what a C function can do besides returning. A call either
    returns (\<open>Inr\<close>) or ends in a fault (\<open>Inl\<close>): the calling thread waits for a mutex it
    holds itself, it leaves an array, or it uses a null pointer.
  \<^item> \<open>mutex\<close>: a POSIX mutex as one thread sees it, with its kind and the number of times
    the thread holds it.
  \<^item> four interfaces, stated as locales: \<open>machine\<close> (a step function and an invariant it
    keeps), \<open>simulation\<close> (a specification and a machine that answer alike), \<open>codec\<close> (an
    encoder and the decoder that undoes it) and \<open>name_table\<close> (a table of named entries, with
    \<open>shrinking_table\<close> for the tables that can also forget a name). Each is interpreted on the
    program's own definitions in the theory that declares them.
\<close>

section \<open>Outcomes\<close>

datatype fault = Deadlock | Out_Of_Bounds | Null_Pointer

type_synonym 'a outcome = "fault + 'a"

named_theorems c_lib "equations of the C library model, as rewrite rules"
named_theorems lock_simps "equations of the mutex model"
named_theorems op_defs "definitions of the operations of a component"

section \<open>Mutexes\<close>

text \<open>
  POSIX leaves the effect of locking a default mutex twice undefined; on the platforms the
  program is built for (Linux, glibc and musl) a default mutex is a normal one and the
  thread waits for itself for ever. A recursive mutex counts instead.
\<close>

datatype mutex_kind = Normal | Recursive

record mutex =
  kind :: mutex_kind
  depth :: nat

definition mutex_lock :: "mutex \<Rightarrow> mutex outcome" where
  "mutex_lock m =
     (if depth m = 0 \<or> kind m = Recursive then Inr (m\<lparr>depth := Suc (depth m)\<rparr>) else Inl Deadlock)"

definition mutex_unlock :: "mutex \<Rightarrow> mutex" where
  "mutex_unlock m = m\<lparr>depth := depth m - 1\<rparr>"

lemma mutex_lock_free [lock_simps]:
  "depth m = 0 \<Longrightarrow> mutex_lock m = Inr (m\<lparr>depth := 1\<rparr>)"
  by (simp add: mutex_lock_def)

lemma mutex_lock_held [lock_simps]:
  "kind m = Normal \<Longrightarrow> depth m > 0 \<Longrightarrow> mutex_lock m = Inl Deadlock"
  by (simp add: mutex_lock_def)

lemma mutex_lock_recursive [lock_simps]:
  "kind m = Recursive \<Longrightarrow> mutex_lock m = Inr (m\<lparr>depth := Suc (depth m)\<rparr>)"
  by (simp add: mutex_lock_def)

lemma mutex_unlock_lock [lock_simps]:
  "mutex_unlock (m\<lparr>depth := Suc n\<rparr>) = m\<lparr>depth := n\<rparr>"
  by (simp add: mutex_unlock_def)

lemma mutex_unlock_one [lock_simps]:
  "depth m = 0 \<Longrightarrow> mutex_unlock (m\<lparr>depth := 1\<rparr>) = m"
  "depth m = 0 \<Longrightarrow> mutex_unlock (m\<lparr>depth := Suc 0\<rparr>) = m"
  by (simp_all add: mutex_unlock_def)

text \<open>A critical section: lock, run the body on the protected state, unlock.\<close>

definition bind_outcome :: "'a outcome \<Rightarrow> ('a \<Rightarrow> 'b outcome) \<Rightarrow> 'b outcome" where
  "bind_outcome r f = (case r of Inl e \<Rightarrow> Inl e | Inr x \<Rightarrow> f x)"

lemma bind_outcome_simps [simp]:
  "bind_outcome (Inr x) f = f x"
  "bind_outcome (Inl e) f = Inl e"
  by (simp_all add: bind_outcome_def)

lemma bind_outcome_Inr: "bind_outcome r f = Inr y \<longleftrightarrow> (\<exists>x. r = Inr x \<and> f x = Inr y)"
  by (cases r) simp_all

section \<open>Machines: a step function and an invariant\<close>

definition run :: "('s \<Rightarrow> 'e \<Rightarrow> 's) \<Rightarrow> 's \<Rightarrow> 'e list \<Rightarrow> 's" where
  "run step s es = foldl step s es"

lemma run_simps [simp]:
  "run step s [] = s"
  "run step s (e # es) = run step (step s e) es"
  by (simp_all add: run_def)

lemma run_append [simp]: "run step s (es @ fs) = run step (run step s es) fs"
  by (simp add: run_def)

locale machine =
  fixes step :: "'s \<Rightarrow> 'e \<Rightarrow> 's" and start :: "'s" and inv :: "'s \<Rightarrow> bool"
  assumes inv_start: "inv start"
    and inv_step: "inv s \<Longrightarrow> inv (step s e)"
begin

lemma inv_run: "inv s \<Longrightarrow> inv (run step s es)"
  by (induction es arbitrary: s) (auto intro: inv_step)

lemma inv_reached: "inv (run step start es)"
  by (intro inv_run inv_start)

text \<open>What every step keeps in a state that satisfies the invariant, every run keeps.\<close>

lemma run_keeps:
  assumes "\<And>s e. inv s \<Longrightarrow> f (step s e) = f s" and "inv s"
  shows "f (run step s es) = f s"
  using assms(2) by (induction es arbitrary: s) (auto simp: assms(1) inv_step)

lemma run_mono:
  fixes f :: "'s \<Rightarrow> 'o :: preorder"
  assumes "\<And>s e. inv s \<Longrightarrow> f s \<le> f (step s e)" and "inv s"
  shows "f s \<le> f (run step s es)"
  using assms(2)
proof (induction es arbitrary: s)
  case Nil
  show ?case by simp
next
  case (Cons e es)
  have "f s \<le> f (step s e)" using Cons.prems by (rule assms(1))
  also have "\<dots> \<le> f (run step (step s e) es)" using Cons by (blast intro: inv_step)
  finally show ?case by simp
qed

end

section \<open>Simulation: two machines that answer alike\<close>

text \<open>A machine with answers gives for an event its answer and the next state.\<close>

fun answers :: "('s \<Rightarrow> 'e \<Rightarrow> 'o \<times> 's) \<Rightarrow> 's \<Rightarrow> 'e list \<Rightarrow> 'o list" where
  "answers f s [] = []"
| "answers f s (e # es) = fst (f s e) # answers f (snd (f s e)) es"

definition state_after :: "('s \<Rightarrow> 'e \<Rightarrow> 'o \<times> 's) \<Rightarrow> 's \<Rightarrow> 'e list \<Rightarrow> 's" where
  "state_after f = run (\<lambda>s e. snd (f s e))"

lemma state_after_simps [simp]:
  "state_after f s [] = s"
  "state_after f s (e # es) = state_after f (snd (f s e)) es"
  "state_after f s (es @ es') = state_after f (state_after f s es) es'"
  by (simp_all add: state_after_def)

lemma answers_append [simp]: "answers f s (es @ es') = answers f s es @ answers f (state_after f s es) es'"
  by (induction es arbitrary: s) simp_all

lemma length_answers [simp]: "length (answers f s es) = length es"
  by (induction es arbitrary: s) simp_all

lemma answers_nth: "k < length es \<Longrightarrow> answers f s es ! k = fst (f (state_after f s (take k es)) (es ! k))"
  by (induction es arbitrary: s k) (simp_all add: nth_Cons' take_Cons' split: if_splits)

locale simulation =
  fixes spec :: "'a \<Rightarrow> 'e \<Rightarrow> 'o \<times> 'a" and impl :: "'s \<Rightarrow> 'e \<Rightarrow> 'o \<times> 's" and rel :: "'a \<Rightarrow> 's \<Rightarrow> bool"
  assumes same_answer: "rel a s \<Longrightarrow> fst (impl s e) = fst (spec a e)"
    and rel_step: "rel a s \<Longrightarrow> rel (snd (spec a e)) (snd (impl s e))"
begin

lemma rel_state_after: "rel a s \<Longrightarrow> rel (state_after spec a es) (state_after impl s es)"
  by (induction es arbitrary: a s) (simp_all add: rel_step)

lemma same_answers: "rel a s \<Longrightarrow> answers impl s es = answers spec a es"
  by (induction es arbitrary: a s) (simp_all add: same_answer rel_step)

end

section \<open>Codecs: a decoder that undoes an encoder\<close>

locale codec =
  fixes enc :: "'a \<Rightarrow> 'w" and dec :: "'w \<Rightarrow> 'b" and meaning :: "'a \<Rightarrow> 'b" and ok :: "'a \<Rightarrow> bool"
  assumes dec_enc: "ok a \<Longrightarrow> dec (enc a) = meaning a"
begin

lemma enc_meaning: "ok a \<Longrightarrow> ok b \<Longrightarrow> enc a = enc b \<Longrightarrow> meaning a = meaning b"
  by (metis dec_enc)

lemma dec_map_enc: "\<forall>a \<in> set xs. ok a \<Longrightarrow> map (dec \<circ> enc) xs = map meaning xs"
  by (simp add: dec_enc)

end

section \<open>Tables of named entries\<close>

text \<open>
  \<open>lookup t k\<close> finds the entry named \<open>k\<close>; \<open>add t k r\<close> enters a new one, or answers
  \<open>None\<close> when the table has no slot left. \<open>key_ok\<close> holds of the names the table stores
  unchanged (those that fit its name arrays).
\<close>

locale name_table =
  fixes lookup :: "'t \<Rightarrow> string \<Rightarrow> 'r option"
    and add :: "'t \<Rightarrow> string \<Rightarrow> 'p \<Rightarrow> 't option"
    and entry :: "string \<Rightarrow> 'p \<Rightarrow> 'r"
    and key_ok :: "string \<Rightarrow> bool"
    and invar :: "'t \<Rightarrow> bool"
  assumes add_invar:
    "invar t \<Longrightarrow> key_ok k \<Longrightarrow> lookup t k = None \<Longrightarrow> add t k p = Some t' \<Longrightarrow> invar t'"
    and add_lookup:
    "invar t \<Longrightarrow> key_ok k \<Longrightarrow> lookup t k = None \<Longrightarrow> add t k p = Some t' \<Longrightarrow>
       lookup t' = (lookup t)(k \<mapsto> entry k p)"
begin

lemma lookup_added:
  "invar t \<Longrightarrow> key_ok k \<Longrightarrow> lookup t k = None \<Longrightarrow> add t k p = Some t' \<Longrightarrow>
     lookup t' k = Some (entry k p)"
  by (simp add: add_lookup)

lemma lookup_others:
  "invar t \<Longrightarrow> key_ok k \<Longrightarrow> lookup t k = None \<Longrightarrow> add t k p = Some t' \<Longrightarrow> j \<noteq> k \<Longrightarrow>
     lookup t' j = lookup t j"
  by (simp add: add_lookup)

lemma dom_added:
  "invar t \<Longrightarrow> key_ok k \<Longrightarrow> lookup t k = None \<Longrightarrow> add t k p = Some t' \<Longrightarrow>
     dom (lookup t') = insert k (dom (lookup t))"
  by (simp add: add_lookup)

end

locale shrinking_table = name_table +
  fixes remove :: "'t \<Rightarrow> string \<Rightarrow> 't"
  assumes remove_invar: "invar t \<Longrightarrow> invar (remove t k)"
    and remove_lookup: "invar t \<Longrightarrow> key_ok k \<Longrightarrow> lookup (remove t k) = (lookup t)(k := None)"
begin

lemma lookup_removed: "invar t \<Longrightarrow> key_ok k \<Longrightarrow> lookup (remove t k) k = None"
  by (simp add: remove_lookup)

lemma remove_others: "invar t \<Longrightarrow> key_ok k \<Longrightarrow> j \<noteq> k \<Longrightarrow> lookup (remove t k) j = lookup t j"
  by (simp add: remove_lookup)

text \<open>A name that was removed can be used again, if there is room, for an entry of its own.\<close>

lemma add_after_remove:
  assumes "invar t" and "key_ok k" and "add (remove t k) k p = Some t'"
  shows "lookup t' = (lookup t)(k \<mapsto> entry k p)"
  using add_lookup [OF remove_invar [OF assms(1)] assms(2) lookup_removed [OF assms(1,2)] assms(3)]
  by (simp add: remove_lookup [OF assms(1,2)])

end

section \<open>Lists\<close>

lemma takeWhile_append_stop:
  "\<forall>x \<in> set xs. P x \<Longrightarrow> ys = [] \<or> \<not> P (hd ys) \<Longrightarrow> takeWhile P (xs @ ys) = xs"
  by (induction xs) (auto simp: takeWhile_eq_Nil_iff)

lemma dropWhile_append_stop:
  "\<forall>x \<in> set xs. P x \<Longrightarrow> ys = [] \<or> \<not> P (hd ys) \<Longrightarrow> dropWhile P (xs @ ys) = ys"
  by (induction xs) (auto simp: dropWhile_eq_self_iff)

lemma take_then_drop: "take n xs @ drop (length (take n xs)) xs = xs"
  by (cases "n \<le> length xs") simp_all

lemma set_list_update_other:
  assumes "i < length xs" and "y \<noteq> x" and "y \<noteq> xs ! i"
  shows "y \<in> set (xs[i := x]) \<longleftrightarrow> y \<in> set xs"
proof
  assume "y \<in> set (xs[i := x])"
  then show "y \<in> set xs" using set_update_subset_insert [of xs i x] assms(2) by auto
next
  assume "y \<in> set xs"
  then obtain j where "j < length xs" and "xs ! j = y" by (auto simp: in_set_conv_nth)
  moreover from this assms(3) have "i \<noteq> j" by auto
  ultimately have "xs[i := x] ! j = y" by simp
  with \<open>j < length xs\<close> show "y \<in> set (xs[i := x])" by (auto simp: in_set_conv_nth)
qed

end
