(* ===== verification/CLib.thy ===== *)
theory CLib
  imports Prelude
begin

text \<open>
  The part of the C library the program uses, on NUL-free strings. A C string is the list
  of its characters before the terminator (\<open>cstr\<close> cuts a byte buffer there); a character
  array of \<open>n\<close> bytes holds at most \<open>n - 1\<close> of them.

  Integers are read as glibc reads them: \<open>strtol\<close> clamps to a 64-bit \<open>long\<close>, and
  \<open>atoi\<close> and the \<open>%d\<close> conversion of \<open>sscanf\<close> keep the low 32 bits of that.
\<close>

section \<open>Characters and strings\<close>

abbreviation NUL :: char where "NUL \<equiv> CHR 0x00"
abbreviation NL :: char where "NL \<equiv> CHR 0x0A"

definition isspace_c :: "char \<Rightarrow> bool" where
  "isspace_c c \<longleftrightarrow> c \<in> {CHR '' '', CHR 0x09, CHR 0x0A, CHR 0x0B, CHR 0x0C, CHR 0x0D}"

definition isdigit_c :: "char \<Rightarrow> bool" where
  "isdigit_c c \<longleftrightarrow> 48 \<le> (of_char c :: nat) \<and> (of_char c :: nat) \<le> 57"

definition isprint_c :: "char \<Rightarrow> bool" where
  "isprint_c c \<longleftrightarrow> 32 \<le> (of_char c :: nat) \<and> (of_char c :: nat) \<le> 126"

definition tolower_c :: "char \<Rightarrow> char" where
  "tolower_c c = (if 65 \<le> (of_char c :: nat) \<and> (of_char c :: nat) \<le> 90
                  then char_of ((of_char c :: nat) + 32) else c)"

definition cstr :: "char list \<Rightarrow> string" where
  "cstr buf = takeWhile (\<lambda>c. c \<noteq> NUL) buf"

definition c_string :: "string \<Rightarrow> bool" where
  "c_string s \<longleftrightarrow> NUL \<notin> set s"

lemma cstr_id [simp]: "c_string s \<Longrightarrow> cstr s = s"
  by (auto simp: cstr_def c_string_def takeWhile_eq_all_conv)

lemma c_string_cstr [simp]: "c_string (cstr buf)"
  by (auto simp: cstr_def c_string_def dest: set_takeWhileD)

text \<open>A word is what \<open>%s\<close> reads back whole: not empty, without white space or NUL.\<close>

definition is_word :: "string \<Rightarrow> bool" where
  "is_word s \<longleftrightarrow> s \<noteq> [] \<and> (\<forall>c \<in> set s. \<not> isspace_c c \<and> c \<noteq> NUL)"

text \<open>\<open>strncpy\<close> into a zeroed array, or with the last byte set to NUL afterwards.\<close>

definition strncpy_c :: "nat \<Rightarrow> string \<Rightarrow> string" where
  "strncpy_c n s = take n s"

definition strncmp_eq :: "string \<Rightarrow> string \<Rightarrow> nat \<Rightarrow> bool" where
  "strncmp_eq s t n \<longleftrightarrow> take n s = take n t"

definition strcasecmp_eq :: "string \<Rightarrow> string \<Rightarrow> bool" where
  "strcasecmp_eq s t \<longleftrightarrow> map tolower_c s = map tolower_c t"

text \<open>
  \<open>snprintf(buf, size, ...)\<close> of a formatted text: at most \<open>size - 1\<close> characters and the
  terminator; nothing at all when \<open>size\<close> is 0. Its return value is the length of the text.
\<close>

definition snprintf_c :: "string \<Rightarrow> nat \<Rightarrow> string \<Rightarrow> string" where
  "snprintf_c old sz text = (if sz = 0 then old else take (sz - 1) text)"

lemma snprintf_fits [c_lib]: "length text < sz \<Longrightarrow> snprintf_c old sz text = text"
  by (simp add: snprintf_c_def)

lemma snprintf_bound: "0 < sz \<Longrightarrow> length (snprintf_c old sz text) < sz"
  by (simp add: snprintf_c_def)

text \<open>
  \<open>snprintf(buf + off, sz - off, ...)\<close> on a buffer of \<open>sz\<close> bytes, the
  size computed in 64-bit unsigned arithmetic.
\<close>

definition snprintf_at :: "string \<Rightarrow> nat \<Rightarrow> nat \<Rightarrow> string \<Rightarrow> string outcome" where
  "snprintf_at buf sz off text =
     (let n = (sz + 2 ^ 64 - off) mod 2 ^ 64
      in if n = 0 then Inr buf
         else if off + min (length text + 1) n > sz then Inl Out_Of_Bounds
         else Inr (take off buf @ take (n - 1) text))"

lemma snprintf_at_inside:
  assumes "off < sz" and "sz < 2 ^ 64"
  shows "snprintf_at buf sz off text = Inr (take off buf @ take (sz - off - 1) text)"
proof -
  have "sz + 2 ^ 64 - off = (sz - off) + 2 ^ 64" using assms(1) by simp
  then have "(sz + 2 ^ 64 - off) mod 2 ^ 64 = sz - off" using assms(2) by (simp only: mod_add_self2 mod_less)
  then show ?thesis using assms(1) by (simp add: snprintf_at_def Let_def)
qed

lemma snprintf_at_end:
  assumes "length full < sz" and "sz < 2 ^ 64"
  shows "snprintf_at full sz (length full) text = Inr (take (sz - 1) (full @ text))"
  using snprintf_at_inside [OF assms, of full "text"] assms(1) by simp

section \<open>Decimal numbers\<close>

definition digit_char :: "nat \<Rightarrow> char" where
  "digit_char d = char_of (48 + d)"

definition digit_val :: "char \<Rightarrow> nat" where
  "digit_val c = of_char c - 48"

fun show_nat :: "nat \<Rightarrow> string" where
  "show_nat n = (if n < 10 then [digit_char n] else show_nat (n div 10) @ [digit_char (n mod 10)])"

declare show_nat.simps [simp del]

definition show_int :: "int \<Rightarrow> string" where
  "show_int i = (if i < 0 then CHR ''-'' # show_nat (nat (- i)) else show_nat (nat i))"

definition digits_val :: "string \<Rightarrow> nat" where
  "digits_val ds = foldl (\<lambda>a c. 10 * a + digit_val c) 0 ds"

lemma of_char_digit: "d < 10 \<Longrightarrow> (of_char (digit_char d) :: nat) = 48 + d"
  by (simp add: digit_char_def)

lemma digit_char_props:
  assumes "d < 10"
  shows "isdigit_c (digit_char d)" and "digit_val (digit_char d) = d"
  using assms by (simp_all add: isdigit_c_def digit_val_def of_char_digit)

lemma isdigit_not_space: "isdigit_c c \<Longrightarrow> \<not> isspace_c c"
  by (auto simp: isdigit_c_def isspace_c_def)

lemma isdigit_not_others:
  "isdigit_c c \<Longrightarrow> c \<noteq> NUL" "isdigit_c c \<Longrightarrow> c \<noteq> CHR ''-''" "isdigit_c c \<Longrightarrow> c \<noteq> CHR ''+''"
  by (auto simp: isdigit_c_def)

lemma show_nat_digits: "\<forall>c \<in> set (show_nat n). isdigit_c c"
proof (induction n rule: show_nat.induct)
  case (1 n)
  then show ?case
    by (cases "n < 10") (auto simp: show_nat.simps [of n] digit_char_props(1))
qed

lemma show_nat_nonempty: "show_nat n \<noteq> []"
  by (simp add: show_nat.simps)

lemma digit_chars [c_lib]:
  "digit_char 0 = CHR ''0''"
  "digit_char 1 = CHR ''1''"
  "digit_char 2 = CHR ''2''"
  "digit_char 3 = CHR ''3''"
  "digit_char 4 = CHR ''4''"
  "digit_char 5 = CHR ''5''"
  "digit_char 6 = CHR ''6''"
  "digit_char 7 = CHR ''7''"
  "digit_char 8 = CHR ''8''"
  "digit_char 9 = CHR ''9''"
  "digit_char (Suc 0) = CHR ''1''"
  by code_simp+

lemma show_nat_digit [c_lib]: "n < 10 \<Longrightarrow> show_nat n = [digit_char n]"
  by (simp add: show_nat.simps [of n])

lemma digits_val_show_nat: "digits_val (show_nat n) = n"
proof (induction n rule: show_nat.induct)
  case (1 n)
  show ?case
  proof (cases "n < 10")
    case True
    then show ?thesis by (simp add: show_nat.simps [of n] digits_val_def digit_char_props(2))
  next
    case False
    have "digits_val (show_nat n) = 10 * digits_val (show_nat (n div 10)) + n mod 10"
      using False by (simp add: show_nat.simps [of n] digits_val_def digit_char_props(2))
    with "1" [OF False] show ?thesis by simp
  qed
qed

lemma show_nat_length: "n < 10 ^ Suc k \<Longrightarrow> length (show_nat n) \<le> Suc k"
proof (induction k arbitrary: n)
  case 0
  then show ?case by (simp add: show_nat_digit)
next
  case (Suc k)
  show ?case
  proof (cases "n < 10")
    case True
    then show ?thesis by (simp add: show_nat_digit)
  next
    case False
    have "length (show_nat (n div 10)) \<le> Suc k" using Suc.prems by (intro Suc.IH) simp
    with False show ?thesis by (simp add: show_nat.simps [of n])
  qed
qed

section \<open>Reading numbers and words\<close>

definition long_clamp :: "int \<Rightarrow> int" where
  "long_clamp v = max (- (2 ^ 63)) (min (2 ^ 63 - 1) v)"

definition int_of_long :: "int \<Rightarrow> int" where
  "int_of_long v = sint (word_of_int v :: 32 word)"

definition scan_sign :: "string \<Rightarrow> bool \<times> string" where
  "scan_sign s = (case s of [] \<Rightarrow> (False, [])
     | c # cs \<Rightarrow> if c = CHR ''-'' then (True, cs) else if c = CHR ''+'' then (False, cs)
                 else (False, s))"

definition strtol_c :: "string \<Rightarrow> (int \<times> string) option" where
  "strtol_c s =
     (let (neg, t) = scan_sign (dropWhile isspace_c s);
          ds = takeWhile isdigit_c t;
          v = int (digits_val ds)
      in if ds = [] then None
         else Some (long_clamp (if neg then - v else v), drop (length ds) t))"

definition atoi_c :: "string \<Rightarrow> int" where
  "atoi_c s = (case strtol_c s of None \<Rightarrow> 0 | Some (v, _) \<Rightarrow> int_of_long v)"

text \<open>The conversions of \<open>sscanf\<close>: each skips white space, then reads or fails.\<close>

definition scan_d :: "string \<Rightarrow> (int \<times> string) option" where
  "scan_d s = map_option (\<lambda>(v, r). (int_of_long v, r)) (strtol_c s)"

definition scan_s :: "nat \<Rightarrow> string \<Rightarrow> (string \<times> string) option" where
  "scan_s width s =
     (let t = dropWhile isspace_c s;
          w = take width (takeWhile (\<lambda>c. \<not> isspace_c c) t)
      in if t = [] then None else Some (w, drop (length w) t))"

definition int32 :: "int \<Rightarrow> bool" where
  "int32 i \<longleftrightarrow> - (2 ^ 31) \<le> i \<and> i < 2 ^ 31"

lemma int_of_long_eq: "int_of_long v = signed_take_bit 31 v"
  unfolding int_of_long_def by transfer simp

lemma int_of_long_id: "int32 i \<Longrightarrow> int_of_long i = i"
  unfolding int_of_long_eq int32_def by (rule signed_take_bit_int_eq_self) simp_all

lemma int_of_long_int32: "int32 (int_of_long v)"
  using signed_take_bit_int_greater_eq_minus_exp [of 31 v] signed_take_bit_int_less_exp [of 31 v]
  by (simp only: int_of_long_eq int32_def)

lemma long_clamp_int32: "int32 i \<Longrightarrow> long_clamp i = i"
  by (simp add: long_clamp_def int32_def)

lemma show_int_no_space: "\<forall>c \<in> set (show_int i). \<not> isspace_c c \<and> c \<noteq> NUL"
  using show_nat_digits isdigit_not_space isdigit_not_others(1)
  by (auto simp: show_int_def isspace_c_def)

lemma show_int_word: "is_word (show_int i)"
  using show_int_no_space by (auto simp: is_word_def show_int_def show_nat_nonempty)

lemma scan_sign_show:
  "scan_sign (show_int i @ rest) = (i < 0, show_nat (nat \<bar>i\<bar>) @ rest)"
proof (cases "i < 0")
  case True
  then show ?thesis by (simp add: show_int_def scan_sign_def)
next
  case False
  obtain c cs where s: "show_nat (nat i) = c # cs"
    using show_nat_nonempty by (cases "show_nat (nat i)") auto
  then have "isdigit_c c" using show_nat_digits [of "nat i"] by simp
  with False s show ?thesis
    by (simp add: show_int_def scan_sign_def isdigit_not_others)
qed

lemma strtol_show_int:
  assumes "int32 i" and "rest = [] \<or> \<not> isdigit_c (hd rest)" and "\<forall>c \<in> set ws. isspace_c c"
  shows "strtol_c (ws @ show_int i @ rest) = Some (i, rest)"
proof -
  define m where "m = nat \<bar>i\<bar>"
  have "dropWhile isspace_c (ws @ show_int i @ rest) = show_int i @ rest"
    using show_int_word [of i] assms(3)
    by (intro dropWhile_append_stop) (auto simp: is_word_def hd_append)
  moreover have "takeWhile isdigit_c (show_nat m @ rest) = show_nat m"
    using show_nat_digits assms(2) by (intro takeWhile_append_stop) auto
  moreover have "(if i < 0 then - int m else int m) = i" by (simp add: m_def)
  ultimately show ?thesis
    using scan_sign_show [of i rest, folded m_def]
    by (cases "i < 0") (auto simp: strtol_c_def Let_def show_nat_nonempty digits_val_show_nat
        long_clamp_int32 [OF assms(1)])
qed

lemma scan_d_show_int [c_lib]:
  assumes "int32 i" and "\<forall>c \<in> set ws. isspace_c c"
  shows "scan_d (ws @ show_int i) = Some (i, [])"
  using strtol_show_int [OF assms(1), of "[]" ws] assms
  by (simp add: scan_d_def int_of_long_id)

lemma atoi_show_int [c_lib]: "int32 i \<Longrightarrow> atoi_c (show_int i) = i"
  using strtol_show_int [of i "[]" "[]"] by (simp add: atoi_c_def int_of_long_id)

lemma atoi_int32: "int32 (atoi_c s)"
  using int_of_long_int32 by (simp add: atoi_c_def int32_def split: option.splits)

text \<open>Printing a 32-bit integer and reading it back with \<open>atoi\<close> is the identity.\<close>

interpretation decimal: codec show_int atoi_c "\<lambda>i. i" int32
  by unfold_locales (rule atoi_show_int)

lemma scan_s_word [c_lib]:
  assumes "is_word w" and "length w \<le> width" and "rest = [] \<or> isspace_c (hd rest)"
    and "\<forall>c \<in> set ws. isspace_c c"
  shows "scan_s width (ws @ w @ rest) = Some (w, rest)"
proof -
  have "dropWhile isspace_c (ws @ w @ rest) = w @ rest"
    using assms by (intro dropWhile_append_stop) (auto simp: is_word_def hd_append)
  moreover have "takeWhile (\<lambda>c. \<not> isspace_c c) (w @ rest) = w"
    using assms by (intro takeWhile_append_stop) (auto simp: is_word_def)
  ultimately show ?thesis using assms by (simp add: scan_s_def is_word_def)
qed

lemma scan_s_blank [c_lib]: "\<forall>c \<in> set ws. isspace_c c \<Longrightarrow> scan_s width ws = None"
  by (simp add: scan_s_def)

lemma scan_s_bound: "scan_s width s = Some (w, r) \<Longrightarrow> length w \<le> width"
  by (auto simp: scan_s_def Let_def split: if_splits)

lemma scan_s_is_word:
  assumes "scan_s width s = Some (w, r)" and "c_string s" and "0 < width"
  shows "is_word w"
proof -
  let ?t = "dropWhile isspace_c s"
  from assms(1) have t: "?t \<noteq> []" and w: "w = take width (takeWhile (\<lambda>c. \<not> isspace_c c) ?t)"
    by (auto simp: scan_s_def Let_def split: if_splits)
  have "\<not> isspace_c (hd ?t)" using hd_dropWhile t by blast
  then have "w \<noteq> []" using t w assms(3) by (cases ?t) auto
  moreover have "\<forall>c \<in> set w. \<not> isspace_c c \<and> c \<in> set s"
    using w by (auto dest!: in_set_takeD set_takeWhileD set_dropWhileD)
  ultimately show ?thesis using assms(2) by (auto simp: is_word_def c_string_def)
qed

lemma scan_d_int32: "scan_d s = Some (v, r) \<Longrightarrow> int32 v"
  by (auto simp: scan_d_def int_of_long_int32)

section \<open>Lines and tokens\<close>

text \<open>
  \<open>fgets(buf, k + 1, fp)\<close> on the rest of a file: the next characters, up to and including a
  newline, at most \<open>k\<close>. \<open>fgets_all\<close> is the list of the buffers that successive calls fill
  until the end of the file.
\<close>

fun fgets_c :: "nat \<Rightarrow> string \<Rightarrow> string \<times> string" where
  "fgets_c 0 s = ([], s)"
| "fgets_c (Suc k) [] = ([], [])"
| "fgets_c (Suc k) (c # cs) =
     (if c = NL then ([c], cs) else (case fgets_c k cs of (l, r) \<Rightarrow> (c # l, r)))"

lemma fgets_append: "fst (fgets_c k s) @ snd (fgets_c k s) = s"
  by (induction k s rule: fgets_c.induct) (auto split: prod.splits)

lemma fgets_length: "length (fst (fgets_c k s)) \<le> k"
  by (induction k s rule: fgets_c.induct) (auto split: prod.splits)

lemma fgets_progress: "0 < k \<Longrightarrow> s \<noteq> [] \<Longrightarrow> length (snd (fgets_c k s)) < length s"
proof -
  assume "0 < k" and "s \<noteq> []"
  then have "fst (fgets_c k s) \<noteq> []"
    by (cases k; cases s) (auto split: prod.splits)
  then have "length (snd (fgets_c k s)) < length (fst (fgets_c k s) @ snd (fgets_c k s))" by simp
  then show ?thesis by (simp only: fgets_append)
qed

function fgets_all :: "nat \<Rightarrow> string \<Rightarrow> string list" where
  "fgets_all k s = (if k = 0 \<or> s = [] then [] else fst (fgets_c k s) # fgets_all k (snd (fgets_c k s)))"
  by pat_completeness auto
termination
  by (relation "measure (\<lambda>(k, s). length s)") (auto intro: fgets_progress)

declare fgets_all.simps [simp del]

lemma fgets_all_nil [simp]: "fgets_all k [] = []"
  by (simp add: fgets_all.simps)

lemma concat_fgets_all: "0 < k \<Longrightarrow> concat (fgets_all k s) = s"
proof (induction k s rule: fgets_all.induct)
  case (1 k s)
  then show ?case
    by (cases "s = []") (auto simp: fgets_all.simps [of k s] fgets_append)
qed

lemma fgets_all_length: "\<forall>l \<in> set (fgets_all k s). length l \<le> k"
proof (induction k s rule: fgets_all.induct)
  case (1 k s)
  then show ?case
    using fgets_length fgets_all.simps [of k s] by (cases "k = 0 \<or> s = []") auto
qed

lemma fgets_line:
  "NL \<notin> set l \<Longrightarrow> length l < k \<Longrightarrow> fgets_c k (l @ NL # rest) = (l @ [NL], rest)"
proof (induction l arbitrary: k)
  case Nil
  then show ?case by (cases k) auto
next
  case (Cons c l)
  then show ?case by (cases k) auto
qed

text \<open>The tokens that \<open>strtok\<close> returns one after the other, for one separator.\<close>

function strtok_c :: "char \<Rightarrow> string \<Rightarrow> string list" where
  "strtok_c d s =
     (let t = dropWhile (\<lambda>c. c = d) s
      in if t = [] then []
         else takeWhile (\<lambda>c. c \<noteq> d) t # strtok_c d (dropWhile (\<lambda>c. c \<noteq> d) t))"
  by pat_completeness auto
termination
proof (relation "measure (\<lambda>(d, s). length s)", goal_cases)
  case (2 d s t)
  then obtain c cs where t: "t = c # cs" and "c \<noteq> d"
    by (metis (full_types) hd_dropWhile list.exhaust_sel)
  then have "length (dropWhile (\<lambda>c. c \<noteq> d) t) \<le> length cs"
    by (simp add: length_dropWhile_le)
  moreover have "length t \<le> length s" using 2 by (simp add: length_dropWhile_le)
  ultimately show ?case using t by simp
qed simp

declare strtok_c.simps [simp del]

lemma strtok_nil [c_lib]: "strtok_c d [] = []"
  by (simp add: strtok_c.simps)

lemma strtok_field [c_lib]:
  assumes "f \<noteq> []" and "d \<notin> set f"
  shows "strtok_c d (f @ d # rest) = f # strtok_c d rest"
    and "strtok_c d f = [f]"
proof -
  have 1: "dropWhile (\<lambda>c. c = d) (f @ r) = f @ r" for r
    using assms by (cases f) auto
  have 2: "takeWhile (\<lambda>c. c \<noteq> d) (f @ d # rest) = f"
    using assms by (intro takeWhile_append_stop) auto
  have 3: "dropWhile (\<lambda>c. c \<noteq> d) (f @ d # rest) = d # rest"
    using assms by (intro dropWhile_append_stop) auto
  have 4: "strtok_c d (d # rest) = strtok_c d rest"
    by (simp add: strtok_c.simps [of d "d # rest"] strtok_c.simps [of d rest])
  show "strtok_c d (f @ d # rest) = f # strtok_c d rest"
    using assms by (simp add: strtok_c.simps [of d "f @ d # rest"] 1 2 3 4)
  have "takeWhile (\<lambda>c. c \<noteq> d) f = f" "dropWhile (\<lambda>c. c \<noteq> d) f = []"
    using assms by (auto simp: takeWhile_eq_all_conv dropWhile_eq_Nil_conv)
  then show "strtok_c d f = [f]"
    using assms(1) 1 [of "[]"] strtok_c.simps [of d f] by (simp only: Let_def append_Nil2 strtok_nil if_False)
qed

end
