(* ===== verification/KernelModule.thy ===== *)
theory KernelModule
  imports CLib
begin

text \<open>
  The kernel module, \<^verbatim>\<open>src/01-kernel-module/proc_monitor.c\<close>: the switch behind
  \<^verbatim>\<open>/proc/sysmonitor\<close> (\<open>monitor_write\<close>, \<open>monitor_read\<close>), the two read-only entries
  \<^verbatim>\<open>/proc/sysstats\<close> and \<^verbatim>\<open>/proc/sysio\<close>, and loading and unloading.

  The kernel functions the module calls are parameters. \<open>cfu buf n\<close> is
  \<open>copy_from_user(dst, buf, n)\<close>: the number of bytes it could not copy, and the bytes it
  copied. \<open>srb\<close> is \<open>simple_read_from_buffer\<close>: for a source buffer, a count and a position
  it gives the value returned, the bytes stored for the user and the new position.
  \<open>proc_create\<close> gives the handle of the entry. What is assumed of the first two is their
  documented behaviour, \<open>copy_from_user_ok\<close> and \<open>simple_read_ok\<close>.
\<close>

section \<open>State\<close>

record kmod =
  monitor_enabled :: int
  monitor_entry :: nat
  stats_entry :: nat
  io_entry :: nat
  stats_buf :: string

definition kmod_zero :: kmod where
  "kmod_zero = \<lparr>monitor_enabled = 0, monitor_entry = 0, stats_entry = 0, io_entry = 0, stats_buf = []\<rparr>"

type_synonym copy_fn = "char list \<Rightarrow> nat \<Rightarrow> nat \<times> char list"
type_synonym read_fn = "string \<Rightarrow> nat \<Rightarrow> nat \<Rightarrow> int \<times> string \<times> nat"

definition copy_from_user_ok :: "copy_fn \<Rightarrow> bool" where
  "copy_from_user_ok cfu \<longleftrightarrow>
     (\<forall>buf n. fst (cfu buf n) = 0 \<longrightarrow> n \<le> length buf \<and> snd (cfu buf n) = take n buf)"

definition simple_read_ok :: "read_fn \<Rightarrow> bool" where
  "simple_read_ok srb \<longleftrightarrow>
     (\<forall>from count pos. srb from count pos =
        (let chunk = take count (drop pos from)
         in (int (length chunk), chunk, pos + length chunk)))"

definition EFAULT :: int where "EFAULT = 14"
definition EINVAL :: int where "EINVAL = 22"

section \<open>The entries\<close>

definition monitor_write :: "copy_fn \<Rightarrow> kmod \<Rightarrow> char list \<Rightarrow> nat \<Rightarrow> int \<times> kmod" where
  "monitor_write cfu st buf count =
     (if count = 0 then (0, st)
      else
        let count = (if count > 1 then 1 else count);
            (left, bytes) = cfu buf count
        in if left \<noteq> 0 then (- EFAULT, st)
           else
             let kbuf = bytes @ [NUL]
             in if kbuf ! 0 = CHR ''1'' then (int count, st\<lparr>monitor_enabled := 1\<rparr>)
                else if kbuf ! 0 = CHR ''0'' then (int count, st\<lparr>monitor_enabled := 0\<rparr>)
                else (- EINVAL, st))"

definition monitor_msg :: "kmod \<Rightarrow> string" where
  "monitor_msg st = snprintf_c [] 32 (''Monitor: '' @ show_int (monitor_enabled st) @ [NL])"

definition monitor_read :: "read_fn \<Rightarrow> kmod \<Rightarrow> nat \<Rightarrow> nat \<Rightarrow> int \<times> string \<times> nat" where
  "monitor_read srb st count ppos = srb (monitor_msg st) count ppos"

definition stats_text :: "nat \<Rightarrow> nat \<Rightarrow> string" where
  "stats_text jiffies hz = ''Uptime: '' @ show_nat (jiffies div hz) @ '' sec'' @ [NL] @ ''Load: 0.1'' @ [NL]"

definition stats_read ::
  "read_fn \<Rightarrow> nat \<Rightarrow> nat \<Rightarrow> kmod \<Rightarrow> nat \<Rightarrow> nat \<Rightarrow> (int \<times> string \<times> nat) \<times> kmod" where
  "stats_read srb jiffies hz st count ppos =
     (let st' = st\<lparr>stats_buf := snprintf_c (stats_buf st) 128 (stats_text jiffies hz)\<rparr>
      in (srb (stats_buf st') count ppos, st'))"

definition io_read :: "string \<Rightarrow> int \<times> string" where
  "io_read seq = (0, seq @ ''IO Count: 42'' @ [NL] @ ''IO Errors: 0'' @ [NL])"

section \<open>Loading and unloading\<close>

datatype kcall = Proc_Create string nat | Proc_Remove nat | Pr_Info string

definition proc_monitor_init :: "(string \<Rightarrow> nat \<Rightarrow> nat) \<Rightarrow> kmod \<Rightarrow> int \<times> kmod \<times> kcall list" where
  "proc_monitor_init proc_create st =
     (0,
      st\<lparr>monitor_entry := proc_create ''sysmonitor'' 0x1B6,
         stats_entry := proc_create ''sysstats'' 0x124,
         io_entry := proc_create ''sysio'' 0x124\<rparr>,
      [Proc_Create ''sysmonitor'' 0x1B6, Proc_Create ''sysstats'' 0x124,
       Proc_Create ''sysio'' 0x124, Pr_Info ''proc_monitor kernel module loaded''])"

definition proc_monitor_exit :: "kmod \<Rightarrow> kmod \<times> kcall list" where
  "proc_monitor_exit st =
     (st, [Proc_Remove (monitor_entry st), Proc_Remove (stats_entry st), Proc_Remove (io_entry st),
           Pr_Info ''proc_monitor kernel module unloaded''])"

section \<open>The switch as a machine\<close>

datatype kmod_event = Write "char list" nat | Read nat nat | Read_Stats nat nat nat nat

fun kmod_step :: "copy_fn \<Rightarrow> read_fn \<Rightarrow> kmod \<Rightarrow> kmod_event \<Rightarrow> kmod" where
  "kmod_step cfu srb st (Write buf count) = snd (monitor_write cfu st buf count)"
| "kmod_step cfu srb st (Read count ppos) = st"
| "kmod_step cfu srb st (Read_Stats jiffies hz count ppos) =
     snd (stats_read srb jiffies hz st count ppos)"

definition kmod_inv :: "kmod \<Rightarrow> bool" where
  "kmod_inv st \<longleftrightarrow> monitor_enabled st \<in> {0, 1} \<and> length (stats_buf st) < 128"

lemma monitor_write_inv: "kmod_inv st \<Longrightarrow> kmod_inv (snd (monitor_write cfu st buf count))"
  by (auto simp: monitor_write_def kmod_inv_def Let_def split: prod.splits)

lemma stats_read_inv: "kmod_inv st \<Longrightarrow> kmod_inv (snd (stats_read srb jiffies hz st count ppos))"
  by (simp add: stats_read_def kmod_inv_def Let_def snprintf_bound)

interpretation km: machine "kmod_step cfu srb" kmod_zero kmod_inv for cfu srb
proof unfold_locales
  show "kmod_inv kmod_zero" by (simp add: kmod_inv_def kmod_zero_def)
next
  fix st e assume "kmod_inv st"
  then show "kmod_inv (kmod_step cfu srb st e)"
    by (cases e) (simp_all add: monitor_write_inv stats_read_inv)
qed

text \<open>
  What the switch should hold after a write: the value named by the first byte when the
  write reaches the module and names one, else what it held.
\<close>

fun switched :: "copy_fn \<Rightarrow> int \<Rightarrow> kmod_event \<Rightarrow> int" where
  "switched cfu v (Write (c # buf) (Suc n)) =
     (if fst (cfu (c # buf) 1) = 0 \<and> c = CHR ''1'' then 1
      else if fst (cfu (c # buf) 1) = 0 \<and> c = CHR ''0'' then 0 else v)"
| "switched cfu v e = v"

lemma monitor_write_count:
  "0 < count \<Longrightarrow> monitor_write cfu st buf count = monitor_write cfu st buf 1"
  by (cases "count = 1") (simp_all add: monitor_write_def)

lemma copy_from_user_byte:
  assumes "copy_from_user_ok cfu" and "fst (cfu buf 1) = 0"
  shows "buf \<noteq> []" and "cfu buf 1 = (0, [hd buf])"
proof -
  have "1 \<le> length buf" and "snd (cfu buf 1) = take 1 buf"
    using assms by (simp_all only: copy_from_user_ok_def)
  then show "buf \<noteq> []" and "cfu buf 1 = (0, [hd buf])"
    using assms(2) by (cases buf; simp add: prod_eq_iff)+
qed

lemma monitor_write_cases:
  assumes "copy_from_user_ok cfu" and "0 < count"
  shows "monitor_write cfu st buf count =
     (if fst (cfu buf 1) \<noteq> 0 then (- EFAULT, st)
      else if hd buf = CHR ''1'' then (1, st\<lparr>monitor_enabled := 1\<rparr>)
      else if hd buf = CHR ''0'' then (1, st\<lparr>monitor_enabled := 0\<rparr>)
      else (- EINVAL, st))"
proof (cases "fst (cfu buf 1) = 0")
  case True
  then show ?thesis
    using copy_from_user_byte [OF assms(1) True]
    unfolding monitor_write_count [OF assms(2)] by (simp add: monitor_write_def)
next
  case False
  then show ?thesis
    unfolding monitor_write_count [OF assms(2)]
    by (cases "cfu buf 1") (simp add: monitor_write_def)
qed

lemma monitor_write_switched:
  assumes "copy_from_user_ok cfu"
  shows "monitor_enabled (snd (monitor_write cfu st buf count)) =
     switched cfu (monitor_enabled st) (Write buf count)"
proof (cases count)
  case 0
  then show ?thesis by (cases buf) (simp_all add: monitor_write_def)
next
  case (Suc n)
  with copy_from_user_byte(1) [OF assms, of buf] show ?thesis
    by (cases buf) (auto simp: monitor_write_cases [OF assms])
qed

lemma kmod_step_switched:
  assumes "copy_from_user_ok cfu"
  shows "monitor_enabled (kmod_step cfu srb st e) = switched cfu (monitor_enabled st) e"
  by (cases e) (simp_all add: monitor_write_switched [OF assms] stats_read_def Let_def)

lemma monitor_msg_cases:
  "kmod_inv st \<Longrightarrow> monitor_msg st =
     (if monitor_enabled st = 1 then ''Monitor: 1'' else ''Monitor: 0'') @ [NL]"
  by (auto simp: kmod_inv_def monitor_msg_def snprintf_c_def show_int_def show_nat_digit digit_chars)

text \<open>
  A program that reads the entry from the start, \<open>chunk\<close> bytes at a time, until a read
  returns nothing. \<open>fuel\<close> bounds the number of reads.
\<close>

fun read_to_end :: "(nat \<Rightarrow> nat \<Rightarrow> int \<times> string \<times> nat) \<Rightarrow> nat \<Rightarrow> nat \<Rightarrow> nat \<Rightarrow> string option" where
  "read_to_end rd 0 chunk pos = None"
| "read_to_end rd (Suc fuel) chunk pos =
     (case rd chunk pos of (r, bytes, pos') \<Rightarrow>
        if r \<le> 0 then Some [] else map_option (\<lambda>rest. bytes @ rest) (read_to_end rd fuel chunk pos'))"

lemma read_to_end_simple:
  assumes "simple_read_ok srb" and "0 < chunk" and "pos \<le> length msg" and "length msg - pos < fuel"
  shows "read_to_end (srb msg) fuel chunk pos = Some (drop pos msg)"
  using assms(3,4)
proof (induction fuel arbitrary: pos)
  case 0
  then show ?case by simp
next
  case (Suc fuel)
  define bytes where "bytes = take chunk (drop pos msg)"
  have rd: "srb msg chunk pos = (int (length bytes), bytes, pos + length bytes)"
    using assms(1) unfolding simple_read_ok_def bytes_def Let_def by blast
  have rest: "bytes @ drop (pos + length bytes) msg = drop pos msg"
    using take_then_drop [of chunk "drop pos msg"] by (simp add: bytes_def add.commute)
  have le: "length bytes \<le> length msg - pos" by (simp add: bytes_def)
  show ?case
  proof (cases "pos = length msg")
    case True
    with rd show ?thesis by (simp add: bytes_def)
  next
    case False
    then have pos: "0 < length bytes" using Suc.prems assms(2) by (simp add: bytes_def)
    then have "read_to_end (srb msg) fuel chunk (pos + length bytes) =
        Some (drop (pos + length bytes) msg)"
      using Suc.prems le by (intro Suc.IH) linarith+
    with pos rest show ?thesis by (simp add: rd)
  qed
qed

section \<open>Properties\<close>

text \<open>The kernel functions on a machine where user memory is always readable.\<close>

definition plain_copy :: copy_fn where
  "plain_copy buf n = (n - length buf, take n buf)"

definition plain_read :: read_fn where
  "plain_read from count pos =
     (let chunk = take count (drop pos from) in (int (length chunk), chunk, pos + length chunk))"

lemma plain_copy_ok: "copy_from_user_ok plain_copy"
  by (simp add: copy_from_user_ok_def plain_copy_def)

lemma plain_read_ok: "simple_read_ok plain_read"
  by (simp add: simple_read_ok_def plain_read_def)

text \<open>C22. After any sequence of writes and reads of the entries, a program that reads
  sysmonitor to its end, in pieces of any size, gets the line with the state of the switch:
  1 or 0 as named by the last write whose first byte reached the module and was one of the two,
  0 if there was none. Writes that fault, are empty or start with another byte change nothing.\<close>

theorem sysmonitor_reads_switch:
  assumes "copy_from_user_ok cfu" and "simple_read_ok srb" and "0 < chunk" and "11 < fuel"
  shows "read_to_end (monitor_read srb (run (kmod_step cfu srb) kmod_zero es)) fuel chunk 0 =
     Some ((if foldl (switched cfu) 0 es = 1 then ''Monitor: 1'' else ''Monitor: 0'') @ [NL])"
proof -
  let ?st = "run (kmod_step cfu srb) kmod_zero es"
  have "monitor_enabled (run (kmod_step cfu srb) st es) = foldl (switched cfu) (monitor_enabled st) es"
    for st
    by (induction es arbitrary: st) (simp_all add: kmod_step_switched [OF assms(1)])
  then have en: "monitor_enabled ?st = foldl (switched cfu) 0 es" by (simp add: kmod_zero_def)
  have msg: "monitor_msg ?st =
      (if monitor_enabled ?st = 1 then ''Monitor: 1'' else ''Monitor: 0'') @ [NL]"
    by (intro monitor_msg_cases km.inv_reached)
  have "monitor_read srb ?st = srb (monitor_msg ?st)" by (intro ext) (simp add: monitor_read_def)
  then show ?thesis
    using read_to_end_simple [OF assms(2,3), of 0 "monitor_msg ?st" fuel] assms(4)
    by (simp add: msg en split: if_splits)
qed

theorem sysmonitor_reads_switch_witness:
  "read_to_end (monitor_read plain_read
      (run (kmod_step plain_copy plain_read) kmod_zero [Write ''1'' 1, Write ''x'' 1, Read 5 0])) 12 4 0 =
     Some (''Monitor: 1'' @ [NL])"
  using sysmonitor_reads_switch [OF plain_copy_ok plain_read_ok, of 4 12
      "[Write ''1'' 1, Write ''x'' 1, Read 5 0]"]
  by (simp add: plain_copy_def)

text \<open>A write of several bytes is accepted for its first byte only, so a program that writes
  the line \<^verbatim>\<open>1\<close> with its newline sees one byte taken and, when it writes the rest, the
  error EINVAL, although the switch is already on.\<close>

theorem newline_is_rejected:
  assumes "copy_from_user_ok cfu" and "fst (cfu (''1'' @ [NL]) 1) = 0" and "fst (cfu [NL] 1) = 0"
  shows "monitor_write cfu st (''1'' @ [NL]) 2 = (1, st\<lparr>monitor_enabled := 1\<rparr>) \<and>
     monitor_write cfu (st\<lparr>monitor_enabled := 1\<rparr>) [NL] 1 = (- EINVAL, st\<lparr>monitor_enabled := 1\<rparr>)"
  using assms by (simp add: monitor_write_cases [OF assms(1)])

theorem newline_is_rejected_witness:
  "monitor_write plain_copy kmod_zero (''1'' @ [NL]) 2 = (1, kmod_zero\<lparr>monitor_enabled := 1\<rparr>) \<and>
   monitor_write plain_copy (kmod_zero\<lparr>monitor_enabled := 1\<rparr>) [NL] 1 =
     (- EINVAL, kmod_zero\<lparr>monitor_enabled := 1\<rparr>)"
  using newline_is_rejected [OF plain_copy_ok, of kmod_zero] by (simp add: plain_copy_def)

end
