(* ===== verification/LocGen.thy ===== *)
theory LocGen
  imports CLib
begin

text \<open>
  The room generator, \<^verbatim>\<open>src/02-loc-gen\<close>: the array of monitoring rooms of
  \<^verbatim>\<open>room_manager.c\<close>, the readers of \<^verbatim>\<open>data_collector.c\<close> and the command line of
  \<^verbatim>\<open>main.c\<close>.

  \<open>lg_state\<close> is the pair of static variables \<open>rooms\<close> and \<open>room_count\<close>. An operation
  gives its return value, what it prints on standard output and the new state. A file
  system is a function from paths to contents (\<open>None\<close> where \<open>fopen\<close> fails).

  The abstract view of the array (\<open>lg_abs\<close>) is the list of its live rooms without their
  ids: \<open>spec_exec\<close> says what each command does to that list, and \<open>lg_exec_refines\<close> that
  the array operations implement it.
\<close>

section \<open>Reading the system's files: data_collector.c\<close>

type_synonym files = "string \<Rightarrow> string option"

fun first_cpu_line :: "string list \<Rightarrow> string list" where
  "first_cpu_line [] = []"
| "first_cpu_line (line # rest) =
     (if strncmp_eq (cstr line) ''cpu '' 4 then [''CPU stats: '' @ cstr line]
      else first_cpu_line rest)"

definition read_cpu_stats :: "files \<Rightarrow> int \<times> string list" where
  "read_cpu_stats fs = (case fs ''/proc/stat'' of
       None \<Rightarrow> (-1, [])
     | Some content \<Rightarrow> (0, first_cpu_line (fgets_all 255 content)))"

definition read_memory_stats :: "files \<Rightarrow> int \<times> string list" where
  "read_memory_stats fs = (case fs ''/proc/meminfo'' of
       None \<Rightarrow> (-1, [])
     | Some content \<Rightarrow> (0, (''Memory stats:'' @ [NL]) # map cstr (fgets_all 255 content)))"

definition read_io_stats :: "files \<Rightarrow> int \<times> string list" where
  "read_io_stats fs = (case fs ''/proc/diskstats'' of
       None \<Rightarrow> (-1, [])
     | Some content \<Rightarrow> (0, (''IO stats:'' @ [NL]) # map cstr (fgets_all 255 content)))"

lemma fgets_all_c_string:
  "c_string s \<Longrightarrow> 0 < k \<Longrightarrow> \<forall>l \<in> set (fgets_all k s). c_string l"
  using arg_cong [OF concat_fgets_all [of k s], of set] by (auto simp: c_string_def)

lemma concat_cstr_fgets_all:
  assumes "c_string s" and "0 < k"
  shows "concat (map cstr (fgets_all k s)) = s"
proof -
  have "map cstr (fgets_all k s) = map (\<lambda>l. l) (fgets_all k s)"
    using fgets_all_c_string [OF assms] by (intro map_cong) auto
  then show ?thesis by (simp add: concat_fgets_all [OF assms(2)])
qed

section \<open>The rooms: room_manager.c\<close>

datatype room_type = CPU_ROOM | MEMORY_ROOM | INF_STATS_ROOM

record lg_room =
  lg_id :: int
  lg_type :: room_type
  lg_interval :: int
  lg_running :: int

record lg_state =
  lg_rooms :: "lg_room list"
  lg_count :: nat

definition LG_MAX_ROOMS :: nat where "LG_MAX_ROOMS = 10"

definition lg_zero :: lg_state where
  "lg_zero = \<lparr>lg_rooms = replicate LG_MAX_ROOMS
                \<lparr>lg_id = 0, lg_type = CPU_ROOM, lg_interval = 0, lg_running = 0\<rparr>,
              lg_count = 0\<rparr>"

definition str_to_room_type :: "string \<Rightarrow> room_type option" where
  "str_to_room_type type_str =
     (if type_str = ''cpu-room'' then Some CPU_ROOM
      else if type_str = ''memory-room'' then Some MEMORY_ROOM
      else if type_str = ''inf-stats-room'' then Some INF_STATS_ROOM
      else None)"

type_synonym lg_result = "int \<times> string list \<times> lg_state"

definition create_room :: "lg_state \<Rightarrow> string \<Rightarrow> int \<Rightarrow> lg_result" where
  "create_room st room_type_str interval =
     (if lg_count st \<ge> LG_MAX_ROOMS then (-1, [''Max rooms reached'' @ [NL]], st)
      else case str_to_room_type room_type_str of
        None \<Rightarrow> (-1, [''Invalid room type '' @ room_type_str @ [NL]], st)
      | Some ty \<Rightarrow>
          let n = lg_count st;
              r = (lg_rooms st ! n)\<lparr>lg_id := int n, lg_type := ty, lg_interval := interval,
                                      lg_running := 0\<rparr>
          in (int n,
              [''Created room id '' @ show_int (int n) @ '' type '' @ room_type_str @
               '' interval '' @ show_int interval @ ''ms'' @ [NL]],
              st\<lparr>lg_rooms := (lg_rooms st)[n := r], lg_count := Suc n\<rparr>))"

definition bad_id :: "lg_state \<Rightarrow> int \<Rightarrow> bool" where
  "bad_id st room_id \<longleftrightarrow> room_id < 0 \<or> room_id \<ge> int (lg_count st)"

function shift_down :: "nat \<Rightarrow> nat \<Rightarrow> lg_room list \<Rightarrow> lg_room list" where
  "shift_down i n rs =
     (if i + 1 < n then shift_down (Suc i) n (rs[i := (rs ! (i + 1))\<lparr>lg_id := int i\<rparr>]) else rs)"
  by pat_completeness auto
termination
  by (relation "measure (\<lambda>(i, n, rs). n - i)") auto

declare shift_down.simps [simp del]

definition delete_room :: "lg_state \<Rightarrow> int \<Rightarrow> lg_result" where
  "delete_room st room_id =
     (if bad_id st room_id then (-1, [''Invalid room id'' @ [NL]], st)
      else (0, [''Deleted room id '' @ show_int room_id @ [NL]],
            st\<lparr>lg_rooms := shift_down (nat room_id) (lg_count st) (lg_rooms st),
               lg_count := lg_count st - 1\<rparr>))"

definition set_running :: "lg_state \<Rightarrow> int \<Rightarrow> int \<Rightarrow> lg_state" where
  "set_running st room_id v =
     st\<lparr>lg_rooms := (lg_rooms st)[nat room_id := (lg_rooms st ! nat room_id)\<lparr>lg_running := v\<rparr>]\<rparr>"

definition start_monitoring :: "lg_state \<Rightarrow> int \<Rightarrow> lg_result" where
  "start_monitoring st room_id =
     (if bad_id st room_id then (-1, [''Invalid room id'' @ [NL]], st)
      else if lg_running (lg_rooms st ! nat room_id) \<noteq> 0 then
        (-1, [''Room id '' @ show_int room_id @ '' already running'' @ [NL]], st)
      else (0, [''Started monitoring room id '' @ show_int room_id @ [NL]], set_running st room_id 1))"

definition stop_monitoring :: "lg_state \<Rightarrow> int \<Rightarrow> lg_result" where
  "stop_monitoring st room_id =
     (if bad_id st room_id then (-1, [''Invalid room id'' @ [NL]], st)
      else if lg_running (lg_rooms st ! nat room_id) = 0 then
        (-1, [''Room id '' @ show_int room_id @ '' is not running'' @ [NL]], st)
      else (0, [''Stopped monitoring room id '' @ show_int room_id @ [NL]], set_running st room_id 0))"

definition show_room_data :: "files \<Rightarrow> lg_state \<Rightarrow> int \<Rightarrow> string list" where
  "show_room_data fs st room_id =
     (if bad_id st room_id then [''Invalid room id'' @ [NL]]
      else
        let room = lg_rooms st ! nat room_id
        in (''Displaying data for room id '' @ show_int (lg_id room) @ [NL]) #
           snd (case lg_type room of
                  CPU_ROOM \<Rightarrow> read_cpu_stats fs
                | MEMORY_ROOM \<Rightarrow> read_memory_stats fs
                | INF_STATS_ROOM \<Rightarrow> read_io_stats fs))"

section \<open>The command line: main.c\<close>

definition usage :: "string \<Rightarrow> int \<times> string list" where
  "usage form = (1, [''Usage: ./loc_gen '' @ form @ [NL]])"

definition lg_main :: "files \<Rightarrow> string list \<Rightarrow> int \<times> string list" where
  "lg_main fs argv =
     (if length argv < 2 then usage ''<command> [args...]''
      else
        let cmd = argv ! 1; argc = length argv
        in if cmd = ''create'' then
             if argc \<noteq> 4 then usage ''create <room_type> <interval_ms>''
             else (0, fst (snd (create_room lg_zero (argv ! 2) (atoi_c (argv ! 3)))))
           else if cmd = ''delete'' then
             if argc \<noteq> 3 then usage ''delete <room_id>''
             else (0, fst (snd (delete_room lg_zero (atoi_c (argv ! 2)))))
           else if cmd = ''start'' then
             if argc \<noteq> 3 then usage ''start <room_id>''
             else (0, fst (snd (start_monitoring lg_zero (atoi_c (argv ! 2)))))
           else if cmd = ''stop'' then
             if argc \<noteq> 3 then usage ''stop <room_id>''
             else (0, fst (snd (stop_monitoring lg_zero (atoi_c (argv ! 2)))))
           else if cmd = ''show'' then
             if argc \<noteq> 3 then usage ''show <room_id>''
             else (0, show_room_data fs lg_zero (atoi_c (argv ! 2)))
           else (1, [''Unknown command '' @ cmd @ [NL]]))"

section \<open>The rooms as a machine\<close>

datatype lg_cmd = Create string int | Delete int | Start int | Stop int | Show int

fun lg_exec :: "files \<Rightarrow> lg_state \<Rightarrow> lg_cmd \<Rightarrow> lg_result" where
  "lg_exec fs st (Create ty interval) = create_room st ty interval"
| "lg_exec fs st (Delete i) = delete_room st i"
| "lg_exec fs st (Start i) = start_monitoring st i"
| "lg_exec fs st (Stop i) = stop_monitoring st i"
| "lg_exec fs st (Show i) = (0, show_room_data fs st i, st)"

definition lg_step :: "files \<Rightarrow> lg_state \<Rightarrow> lg_cmd \<Rightarrow> lg_state" where
  "lg_step fs st c = snd (snd (lg_exec fs st c))"

text \<open>
  The array keeps its length, \<open>room_count\<close> stays within it, the id of each live room is
  its index and \<open>running\<close> is a flag.
\<close>

definition room_ok :: "nat \<Rightarrow> lg_room \<Rightarrow> bool" where
  "room_ok i r \<longleftrightarrow> lg_id r = int i \<and> lg_running r \<in> {0, 1}"

definition lg_inv :: "lg_state \<Rightarrow> bool" where
  "lg_inv st \<longleftrightarrow>
     length (lg_rooms st) = LG_MAX_ROOMS \<and> lg_count st \<le> LG_MAX_ROOMS \<and>
     (\<forall>i < lg_count st. room_ok i (lg_rooms st ! i))"

lemma room_ok_updates:
  "room_ok (Suc j) r \<Longrightarrow> room_ok j (r\<lparr>lg_id := int j\<rparr>)"
  "room_ok j r \<Longrightarrow> v \<in> {0, 1} \<Longrightarrow> room_ok j (r\<lparr>lg_running := v\<rparr>)"
  "room_ok j (r\<lparr>lg_id := int j, lg_type := ty, lg_interval := iv, lg_running := 0\<rparr>)"
  by (auto simp: room_ok_def)

lemma length_shift_down [simp]: "length (shift_down i n rs) = length rs"
proof (induction i n rs rule: shift_down.induct)
  case (1 i n rs)
  then show ?case by (simp add: shift_down.simps [of i n rs])
qed

lemma nth_shift_down:
  "n \<le> length rs \<Longrightarrow> j < length rs \<Longrightarrow>
     shift_down i n rs ! j = (if i \<le> j \<and> j + 1 < n then (rs ! (j + 1))\<lparr>lg_id := int j\<rparr> else rs ! j)"
proof (induction i n rs rule: shift_down.induct)
  case (1 i n rs)
  show ?case
  proof (cases "i + 1 < n")
    case True
    then show ?thesis
      using "1.IH" [OF True] "1.prems"
      by (auto simp: shift_down.simps [of i n rs] nth_list_update)
  next
    case False
    then show ?thesis by (auto simp: shift_down.simps [of i n rs])
  qed
qed

lemma create_room_inv:
  "lg_inv st \<Longrightarrow> lg_inv (snd (snd (create_room st ty interval)))"
  by (auto simp: create_room_def lg_inv_def Let_def nth_list_update less_Suc_eq room_ok_updates
      split: option.splits)

lemma delete_room_inv:
  "lg_inv st \<Longrightarrow> lg_inv (snd (snd (delete_room st i)))"
  by (auto simp: delete_room_def lg_inv_def nth_shift_down room_ok_updates)

lemma set_running_inv:
  "lg_inv st \<Longrightarrow> \<not> bad_id st i \<Longrightarrow> v \<in> {0, 1} \<Longrightarrow> lg_inv (set_running st i v)"
  by (auto simp: set_running_def lg_inv_def bad_id_def nth_list_update room_ok_updates)

lemma lg_step_inv: "lg_inv st \<Longrightarrow> lg_inv (lg_step fs st c)"
  by (cases c)
    (simp_all add: lg_step_def create_room_inv delete_room_inv start_monitoring_def
      stop_monitoring_def set_running_inv)

interpretation lg: machine "lg_step fs" lg_zero lg_inv for fs
  by unfold_locales (simp_all add: lg_step_inv, simp add: lg_inv_def lg_zero_def)

section \<open>The abstract rooms\<close>

text \<open>A room without its place: what it monitors, its interval, whether it runs.\<close>

type_synonym abs_room = "room_type \<times> int \<times> bool"

definition abs_room :: "lg_room \<Rightarrow> abs_room" where
  "abs_room r = (lg_type r, lg_interval r, lg_running r \<noteq> 0)"

definition lg_abs :: "lg_state \<Rightarrow> abs_room list" where
  "lg_abs st = map abs_room (take (lg_count st) (lg_rooms st))"

definition valid_id :: "'a list \<Rightarrow> int \<Rightarrow> bool" where
  "valid_id xs i \<longleftrightarrow> 0 \<le> i \<and> i < int (length xs)"

definition spec_set :: "abs_room list \<Rightarrow> int \<Rightarrow> bool \<Rightarrow> int \<times> abs_room list" where
  "spec_set xs i on =
     (if valid_id xs i \<and> snd (snd (xs ! nat i)) \<noteq> on
      then (0, xs[nat i := (fst (xs ! nat i), fst (snd (xs ! nat i)), on)])
      else (-1, xs))"

fun spec_exec :: "abs_room list \<Rightarrow> lg_cmd \<Rightarrow> int \<times> abs_room list" where
  "spec_exec xs (Create ty interval) =
     (case str_to_room_type ty of
        Some t \<Rightarrow> if length xs < LG_MAX_ROOMS then (int (length xs), xs @ [(t, interval, False)])
                  else (-1, xs)
      | None \<Rightarrow> (-1, xs))"
| "spec_exec xs (Delete i) =
     (if valid_id xs i then (0, take (nat i) xs @ drop (Suc (nat i)) xs) else (-1, xs))"
| "spec_exec xs (Start i) = spec_set xs i True"
| "spec_exec xs (Stop i) = spec_set xs i False"
| "spec_exec xs (Show i) = (0, xs)"

lemma length_lg_abs: "lg_inv st \<Longrightarrow> length (lg_abs st) = lg_count st"
  by (simp add: lg_abs_def lg_inv_def)

lemma nth_lg_abs: "lg_inv st \<Longrightarrow> i < lg_count st \<Longrightarrow> lg_abs st ! i = abs_room (lg_rooms st ! i)"
  by (simp add: lg_abs_def lg_inv_def)

lemma valid_id_bad: "lg_inv st \<Longrightarrow> valid_id (lg_abs st) i = (\<not> bad_id st i)"
  by (auto simp: valid_id_def bad_id_def length_lg_abs)

lemma lg_abs_create:
  assumes "lg_inv st" and "lg_count st < LG_MAX_ROOMS"
  shows "lg_abs (st\<lparr>lg_rooms := (lg_rooms st)[lg_count st := r], lg_count := Suc (lg_count st)\<rparr>) =
     lg_abs st @ [abs_room r]"
  using assms by (simp add: lg_abs_def lg_inv_def take_Suc_conv_app_nth)

lemma lg_abs_delete:
  assumes "lg_inv st" and "i < lg_count st"
  shows "lg_abs (st\<lparr>lg_rooms := shift_down i (lg_count st) (lg_rooms st), lg_count := lg_count st - 1\<rparr>) =
     take i (lg_abs st) @ drop (Suc i) (lg_abs st)"
proof (rule nth_equalityI)
  let ?st' = "st\<lparr>lg_rooms := shift_down i (lg_count st) (lg_rooms st), lg_count := lg_count st - 1\<rparr>"
  from assms have len: "length (lg_rooms st) = LG_MAX_ROOMS" "lg_count st \<le> LG_MAX_ROOMS"
    by (simp_all add: lg_inv_def)
  show "length (lg_abs ?st') = length (take i (lg_abs st) @ drop (Suc i) (lg_abs st))"
    using assms len by (simp add: lg_abs_def)
  fix j assume "j < length (lg_abs ?st')"
  then have j: "j < lg_count st - 1" by (simp add: lg_abs_def len)
  have "lg_abs ?st' ! j = abs_room (shift_down i (lg_count st) (lg_rooms st) ! j)"
    using j len by (simp add: lg_abs_def)
  also have "\<dots> = abs_room (lg_rooms st ! (if i \<le> j then Suc j else j))"
    using j len by (auto simp: nth_shift_down abs_room_def)
  also have "\<dots> = (take i (lg_abs st) @ drop (Suc i) (lg_abs st)) ! j"
    using assms j len by (auto simp: nth_append length_lg_abs nth_lg_abs min_def)
  finally show "lg_abs ?st' ! j = (take i (lg_abs st) @ drop (Suc i) (lg_abs st)) ! j" .
qed

lemma lg_abs_set_running:
  assumes "lg_inv st" and "\<not> bad_id st i"
  shows "lg_abs (set_running st i v) =
     (lg_abs st)[nat i := (lg_type (lg_rooms st ! nat i), lg_interval (lg_rooms st ! nat i), v \<noteq> 0)]"
  using assms by (simp add: lg_abs_def set_running_def take_update_swap map_update abs_room_def)

lemma lg_exec_refines:
  assumes "lg_inv st"
  shows "(fst (lg_exec fs st c), lg_abs (lg_step fs st c)) = spec_exec (lg_abs st) c"
proof (cases c)
  case (Create ty interval)
  with assms show ?thesis
    by (auto simp: lg_step_def create_room_def Let_def length_lg_abs lg_abs_create abs_room_def
        split: option.splits)
next
  case (Delete i)
  with assms lg_abs_delete [OF assms, of "nat i"] show ?thesis
    by (auto simp: lg_step_def delete_room_def valid_id_bad bad_id_def)
next
  case (Start i)
  with assms show ?thesis
    by (auto simp: lg_step_def start_monitoring_def spec_set_def valid_id_bad lg_abs_set_running
        nth_lg_abs abs_room_def bad_id_def)
next
  case (Stop i)
  with assms show ?thesis
    by (auto simp: lg_step_def stop_monitoring_def spec_set_def valid_id_bad lg_abs_set_running
        nth_lg_abs abs_room_def bad_id_def)
next
  case (Show i)
  then show ?thesis by (simp add: lg_step_def)
qed

text \<open>A command as a turn with its return value.\<close>

definition lg_turn :: "files \<Rightarrow> lg_state \<Rightarrow> lg_cmd \<Rightarrow> int \<times> lg_state" where
  "lg_turn fs st c = (fst (lg_exec fs st c), lg_step fs st c)"

interpretation ls: simulation spec_exec "lg_turn fs" "\<lambda>xs st. lg_inv st \<and> lg_abs st = xs" for fs
proof unfold_locales
  fix xs st c
  assume rel: "lg_inv st \<and> lg_abs st = xs"
  then have "(fst (lg_exec fs st c), lg_abs (lg_step fs st c)) = spec_exec xs c" using lg_exec_refines by blast
  moreover have "lg_inv (lg_step fs st c)" using rel lg_step_inv by blast
  ultimately show "fst (lg_turn fs st c) = fst (spec_exec xs c)"
    "lg_inv (snd (lg_turn fs st c)) \<and> lg_abs (snd (lg_turn fs st c)) = snd (spec_exec xs c)"
    by (auto simp: lg_turn_def prod_eq_iff)
qed

lemma lg_abs_zero: "lg_abs lg_zero = []"
  by (simp add: lg_abs_def lg_zero_def)

lemma bad_id_zero: "bad_id lg_zero i"
  unfolding bad_id_def lg_zero_def by (simp, arith)

section \<open>Properties\<close>

text \<open>C11. Any sequence of commands on the static array of rooms (create, delete, start, stop, show, with
  any arguments) returns value for value what a list of rooms would return, and leaves the rooms of the
  list: create appends and answers the position, or fails on a full array or an unknown type; delete
  removes one position; start and stop fail unless they change the room.\<close>

theorem rooms_refine_list:
  "answers (lg_turn fs) lg_zero cs = answers spec_exec [] cs \<and>
   lg_abs (state_after (lg_turn fs) lg_zero cs) = state_after spec_exec [] cs"
proof -
  have start: "lg_inv lg_zero \<and> lg_abs lg_zero = []" using lg.inv_start lg_abs_zero by blast
  show ?thesis using ls.same_answers [OF start] ls.rel_state_after [OF start] by blast
qed

text \<open>In every state the commands can reach, at most ten rooms are live and the id stored in
  each live room is its index, also after deletions, which renumber the rooms behind the
  deleted one.\<close>

theorem ids_are_indices:
  "let st = run (lg_step fs) lg_zero cs
   in map lg_id (take (lg_count st) (lg_rooms st)) = map int [0..<lg_count st] \<and>
      lg_count st \<le> LG_MAX_ROOMS"
proof -
  have "lg_inv (run (lg_step fs) lg_zero cs)" by (rule lg.inv_reached)
  then show ?thesis by (auto simp: lg_inv_def room_ok_def Let_def intro!: nth_equalityI)
qed

text \<open>Each run of the command-line program starts from the empty static array, so deleting,
  starting, stopping and showing a room never find one: whatever id is given, the program
  prints that the id is invalid and exits with status 0.\<close>

theorem command_line_finds_no_room:
  "lg_main fs [prog, ''delete'', i] = (0, [''Invalid room id'' @ [NL]]) \<and>
   lg_main fs [prog, ''start'', i] = (0, [''Invalid room id'' @ [NL]]) \<and>
   lg_main fs [prog, ''stop'', i] = (0, [''Invalid room id'' @ [NL]]) \<and>
   lg_main fs [prog, ''show'', i] = (0, [''Invalid room id'' @ [NL]])"
  by (simp add: lg_main_def delete_room_def start_monitoring_def stop_monitoring_def
      show_room_data_def bad_id_zero)


definition example_files :: files where
  "example_files = [''/proc/meminfo'' \<mapsto> ''MemFree: 7 kB'' @ [NL], ''/proc/diskstats'' \<mapsto> ''sda 1'' @ [NL],
                    ''/proc/stat'' \<mapsto> ''cpu 1 2 3'' @ [NL] @ ''cpu0 1 2 3'' @ [NL]]"


end
