(* ===== verification/DaemonRooms.thy ===== *)
theory DaemonRooms
  imports CLib
begin

text \<open>
  The room table of the socket daemon: the types and globals of
  \<^verbatim>\<open>src/03-communication/daemon/daemon.h\<close> and the room management functions at the end of
  \<^verbatim>\<open>command_handler.c\<close> (\<open>find_room\<close>, \<open>add_room\<close>, \<open>remove_room\<close>, \<open>list_rooms\<close>).

  \<open>daemon\<close> is the record of the globals: the array \<open>rooms\<close>, \<open>room_count\<close>, the mutex as the
  running thread sees it and \<open>daemon_running\<close>. A pointer to a room is its index. The table
  satisfies the interface \<open>shrinking_table\<close> (interpretation \<open>dt\<close>). The writer of the
  room list, which appends to a bounded buffer piece by piece, is shown equal to formatting
  the whole list and truncating it (\<open>list_rooms_eq\<close>).
\<close>

section \<open>Types and globals\<close>

datatype room_status = ROOM_CREATED | ROOM_RUNNING | ROOM_STOPPED

record room =
  r_name :: string
  r_size :: int
  r_status :: room_status
  r_pid :: int
  r_active :: bool

record daemon =
  rooms :: "room list"
  room_count :: nat
  rooms_mutex :: mutex
  daemon_running :: bool

definition MAX_ROOMS :: nat where "MAX_ROOMS = 50"
definition MAX_ROOM_NAME :: nat where "MAX_ROOM_NAME = 64"

definition zero_room :: room where
  "zero_room = \<lparr>r_name = [], r_size = 0, r_status = ROOM_CREATED, r_pid = 0, r_active = False\<rparr>"

definition daemon_start :: daemon where
  "daemon_start = \<lparr>rooms = replicate MAX_ROOMS zero_room, room_count = 0,
                   rooms_mutex = \<lparr>kind = Normal, depth = 0\<rparr>, daemon_running = True\<rparr>"

definition lock_rooms :: "daemon \<Rightarrow> daemon outcome" where
  "lock_rooms st = (case mutex_lock (rooms_mutex st) of
       Inl f \<Rightarrow> Inl f | Inr m \<Rightarrow> Inr (st\<lparr>rooms_mutex := m\<rparr>))"

definition unlock_rooms :: "daemon \<Rightarrow> daemon" where
  "unlock_rooms st = st\<lparr>rooms_mutex := mutex_unlock (rooms_mutex st)\<rparr>"

fun room_status_string :: "room_status \<Rightarrow> string" where
  "room_status_string ROOM_CREATED = ''CREATED''"
| "room_status_string ROOM_RUNNING = ''RUNNING''"
| "room_status_string ROOM_STOPPED = ''STOPPED''"

section \<open>Finding, adding and removing\<close>

definition find_room :: "daemon \<Rightarrow> string \<Rightarrow> nat option" where
  "find_room st room_name =
     find (\<lambda>i. r_active (rooms st ! i) \<and> r_name (rooms st ! i) = room_name) [0..<room_count st]"

definition add_room :: "string \<Rightarrow> int \<Rightarrow> daemon \<Rightarrow> int \<times> daemon" where
  "add_room room_name room_size st =
     (if room_count st \<ge> MAX_ROOMS then (-1, st)
      else
        let n = room_count st;
            r = (rooms st ! n)\<lparr>r_name := strncpy_c (MAX_ROOM_NAME - 1) room_name, r_size := room_size,
                                r_status := ROOM_CREATED, r_pid := 0, r_active := True\<rparr>
        in (0, st\<lparr>rooms := (rooms st)[n := r], room_count := Suc n\<rparr>))"

definition remove_room :: "string \<Rightarrow> daemon \<Rightarrow> int \<times> daemon" where
  "remove_room room_name st =
     (case find_room st room_name of
        None \<Rightarrow> (-1, st)
      | Some i \<Rightarrow> (0, st\<lparr>rooms := (rooms st)[i := (rooms st ! i)\<lparr>r_active := False\<rparr>]\<rparr>))"

section \<open>The table invariant\<close>

definition table_inv :: "daemon \<Rightarrow> bool" where
  "table_inv st \<longleftrightarrow>
     length (rooms st) = MAX_ROOMS \<and> room_count st \<le> MAX_ROOMS \<and>
     (\<forall>i < room_count st. \<forall>j < room_count st.
        r_active (rooms st ! i) \<and> r_active (rooms st ! j) \<and>
        r_name (rooms st ! i) = r_name (rooms st ! j) \<longrightarrow> i = j)"

definition name_fits :: "string \<Rightarrow> bool" where
  "name_fits name \<longleftrightarrow> length name < MAX_ROOM_NAME"

definition lookup :: "daemon \<Rightarrow> string \<Rightarrow> room option" where
  "lookup st name = map_option (\<lambda>i. rooms st ! i) (find_room st name)"

definition new_room :: "string \<Rightarrow> int \<Rightarrow> room" where
  "new_room name sz =
     \<lparr>r_name = name, r_size = sz, r_status = ROOM_CREATED, r_pid = 0, r_active = True\<rparr>"

lemma find_room_Some:
  assumes "find_room st name = Some i"
  shows "i < room_count st" and "r_active (rooms st ! i)" and "r_name (rooms st ! i) = name"
  using assms by (auto simp: find_room_def find_Some_iff)

lemma find_room_None:
  "find_room st name = None \<longleftrightarrow>
     (\<forall>i < room_count st. \<not> (r_active (rooms st ! i) \<and> r_name (rooms st ! i) = name))"
  by (auto simp: find_room_def find_None_iff)

text \<open>With the names of the active rooms distinct, the first room found is the only one.\<close>

lemma find_room_unique:
  assumes "table_inv st"
  shows "find_room st name = Some i \<longleftrightarrow>
     i < room_count st \<and> r_active (rooms st ! i) \<and> r_name (rooms st ! i) = name"
proof
  assume "find_room st name = Some i"
  then show "i < room_count st \<and> r_active (rooms st ! i) \<and> r_name (rooms st ! i) = name"
    by (simp add: find_room_Some)
next
  assume r: "i < room_count st \<and> r_active (rooms st ! i) \<and> r_name (rooms st ! i) = name"
  then obtain j where j: "find_room st name = Some j"
    by (cases "find_room st name") (auto simp: find_room_None)
  with r assms find_room_Some [OF j] have "i = j" by (auto simp: table_inv_def)
  with j show "find_room st name = Some i" by simp
qed

definition live :: "daemon \<Rightarrow> room list" where
  "live st = take (room_count st) (rooms st)"

lemma lookup_Some:
  assumes "table_inv st"
  shows "lookup st name = Some r \<longleftrightarrow> r \<in> set (live st) \<and> r_active r \<and> r_name r = name"
  using find_room_unique [OF assms] assms
  by (auto simp: lookup_def live_def in_set_conv_nth table_inv_def)

lemma lookup_eqI:
  assumes "table_inv st" and "table_inv st'"
    and "\<And>r. r_active r \<Longrightarrow> r_name r = name \<Longrightarrow> r \<in> set (live st') \<longleftrightarrow> r \<in> set (live st)"
  shows "lookup st' name = lookup st name"
proof -
  have "lookup st' name = Some r \<longleftrightarrow> lookup st name = Some r" for r
    using assms(3) [of r] by (auto simp: lookup_Some [OF assms(1)] lookup_Some [OF assms(2)])
  then show ?thesis by (metis not_Some_eq)
qed

lemma new_room_fill:
  "r\<lparr>r_name := name, r_size := sz, r_status := ROOM_CREATED, r_pid := 0, r_active := True\<rparr> =
     new_room name sz"
  by (cases r) (simp add: new_room_def)

lemma new_room_sel [simp]:
  "r_name (new_room name sz) = name" "r_size (new_room name sz) = sz"
  "r_status (new_room name sz) = ROOM_CREATED" "r_pid (new_room name sz) = 0"
  "r_active (new_room name sz)"
  by (simp_all add: new_room_def)

lemma add_room_eq:
  assumes "name_fits name"
  shows "add_room name sz st =
     (if room_count st \<ge> MAX_ROOMS then (-1, st)
      else (0, st\<lparr>rooms := (rooms st)[room_count st := new_room name sz],
                  room_count := Suc (room_count st)\<rparr>))"
proof -
  have "strncpy_c (MAX_ROOM_NAME - 1) name = name"
    using assms by (simp add: strncpy_c_def name_fits_def MAX_ROOM_NAME_def)
  then show ?thesis by (simp add: add_room_def Let_def new_room_fill)
qed

lemma add_room_inv:
  assumes "table_inv st" and "name_fits name" and "find_room st name = None"
    and "add_room name sz st = (0, st')"
  shows "table_inv st'"
  using assms
  by (auto simp: add_room_eq table_inv_def find_room_None nth_list_update less_Suc_eq
      split: if_splits)

lemma live_add_room:
  assumes "table_inv st" and "name_fits name" and "add_room name sz st = (0, st')"
  shows "live st' = live st @ [new_room name sz]"
  using assms
  by (auto simp: add_room_eq live_def table_inv_def take_Suc_conv_app_nth split: if_splits)

lemma add_room_lookup:
  assumes "table_inv st" and "name_fits name" and "find_room st name = None"
    and "add_room name sz st = (0, st')"
  shows "lookup st' = (lookup st)(name \<mapsto> new_room name sz)"
proof
  fix k
  have inv': "table_inv st'" by (rule add_room_inv [OF assms])
  note live' = live_add_room [OF assms(1,2,4)]
  show "lookup st' k = ((lookup st)(name \<mapsto> new_room name sz)) k"
  proof (cases "k = name")
    case True
    then show ?thesis by (simp add: lookup_Some [OF inv'] live')
  next
    case False
    then have "lookup st' k = lookup st k"
      by (intro lookup_eqI [OF assms(1) inv']) (auto simp: live')
    with False show ?thesis by simp
  qed
qed

lemma remove_room_inv:
  assumes "table_inv st"
  shows "table_inv (snd (remove_room name st))"
proof (cases "find_room st name")
  case (Some i)
  then have "i < length (rooms st)" using assms find_room_Some(1) [OF Some] by (simp add: table_inv_def)
  with assms Some show ?thesis by (auto simp: remove_room_def table_inv_def nth_list_update)
qed (use assms in \<open>simp add: remove_room_def\<close>)

lemma remove_room_found:
  assumes "table_inv st" and "find_room st name = Some i"
  shows "live (snd (remove_room name st)) = (live st)[i := (live st ! i)\<lparr>r_active := False\<rparr>]"
    and "i < length (live st)" and "r_name (live st ! i) = name"
  using assms find_room_Some [OF assms(2)]
  by (simp_all add: live_def table_inv_def remove_room_def take_update_swap)

lemma remove_room_lookup:
  assumes "table_inv st"
  shows "lookup (snd (remove_room name st)) = (lookup st)(name := None)"
proof
  fix k
  let ?st' = "snd (remove_room name st)"
  have inv': "table_inv ?st'" by (rule remove_room_inv [OF assms])
  show "lookup ?st' k = ((lookup st)(name := None)) k"
  proof (cases "find_room st name")
    case None
    then show ?thesis by (simp add: remove_room_def lookup_def)
  next
    case (Some i)
    note i = remove_room_found [OF assms Some]
    show ?thesis
    proof (cases "k = name")
      case True
      have "find_room ?st' name = None"
        using assms find_room_Some [OF Some] Some
        by (auto simp: remove_room_def find_room_None nth_list_update table_inv_def)
      with True show ?thesis by (simp add: lookup_def)
    next
      case False
      have "lookup ?st' k = lookup st k"
        using False i
        by (intro lookup_eqI [OF assms inv'], unfold i(1), intro set_list_update_other) auto
      with False show ?thesis by simp
    qed
  qed
qed

definition try_add :: "daemon \<Rightarrow> string \<Rightarrow> int \<Rightarrow> daemon option" where
  "try_add st name sz = (case add_room name sz st of (r, st') \<Rightarrow> if r < 0 then None else Some st')"

lemma try_add_Some: "try_add st name sz = Some st' \<longleftrightarrow> add_room name sz st = (0, st')"
  by (auto simp: try_add_def add_room_def Let_def)

interpretation dt: shrinking_table lookup try_add new_room name_fits table_inv
  "\<lambda>st name. snd (remove_room name st)"
proof unfold_locales
  fix t k p t'
  assume "table_inv t" "name_fits k" "lookup t k = None" "try_add t k p = Some t'"
  then show "table_inv t'" "lookup t' = (lookup t)(k \<mapsto> new_room k p)"
    using add_room_inv add_room_lookup by (auto simp: try_add_Some lookup_def)
qed (simp_all add: remove_room_inv remove_room_lookup)

section \<open>The room list\<close>

definition room_line :: "room \<Rightarrow> string" where
  "room_line r = ''  '' @ r_name r @ '': size='' @ show_int (r_size r) @ '', status='' @
                 room_status_string (r_status r) @ [NL]"

fun list_loop :: "nat \<Rightarrow> room list \<Rightarrow> string \<Rightarrow> nat \<Rightarrow> string outcome" where
  "list_loop sz [] buf off = Inr buf"
| "list_loop sz (r # rs) buf off =
     (if int off < int sz - 1 then
        if r_active r then
          (case snprintf_at buf sz off (room_line r) of
             Inl f \<Rightarrow> Inl f
           | Inr buf' \<Rightarrow> list_loop sz rs buf' (off + length (room_line r)))
        else list_loop sz rs buf off
      else Inr buf)"

definition rooms_header :: string where
  "rooms_header = ''OK Rooms:'' @ [NL]"

lemma length_rooms_header [simp]: "length rooms_header = 10"
  by (simp add: rooms_header_def)

definition list_rooms :: "string \<Rightarrow> nat \<Rightarrow> daemon \<Rightarrow> (string \<times> daemon) outcome" where
  "list_rooms response response_size st =
     (case snprintf_at response response_size 0 rooms_header of
        Inl f \<Rightarrow> Inl f
      | Inr buf \<Rightarrow>
          (case lock_rooms st of
             Inl f \<Rightarrow> Inl f
           | Inr st \<Rightarrow>
               (case (if room_count st = 0
                      then snprintf_at buf response_size 10 ''No rooms created''
                      else list_loop response_size (take (room_count st) (rooms st)) buf 10) of
                  Inl f \<Rightarrow> Inl f
                | Inr buf' \<Rightarrow> Inr (buf', unlock_rooms st))))"

text \<open>What the list should say, before it is cut to the size of the buffer.\<close>

definition room_list :: "daemon \<Rightarrow> string" where
  "room_list st = rooms_header @
     (if room_count st = 0 then ''No rooms created''
      else concat (map room_line (filter r_active (take (room_count st) (rooms st)))))"

lemma list_loop_eq:
  assumes "sz < 2 ^ 64" and "off = length full" and "buf = take (sz - 1) full"
  shows "list_loop sz rs buf off =
     Inr (take (sz - 1) (full @ concat (map room_line (filter r_active rs))))"
  using assms(2,3)
proof (induction rs arbitrary: buf off full)
  case Nil
  then show ?case by simp
next
  case (Cons r rs)
  show ?case
  proof (cases "off + 1 < sz")
    case True
    then have buf: "buf = full" using Cons.prems by simp
    show ?thesis
    proof (cases "r_active r")
      case act: True
      have "snprintf_at buf sz off (room_line r) = Inr (take (sz - 1) (full @ room_line r))"
        using True Cons.prems buf snprintf_at_end [of full sz "room_line r"] assms(1) by simp
      then show ?thesis
        using act True Cons.prems
          Cons.IH [of "off + length (room_line r)" "full @ room_line r" "take (sz - 1) (full @ room_line r)"]
        by simp
    next
      case False
      then show ?thesis using True Cons.IH [OF Cons.prems] by simp
    qed
  next
    case False
    then have "sz - 1 \<le> length full" using Cons.prems by simp
    then show ?thesis using False Cons.prems by simp
  qed
qed

lemma lock_rooms_free:
  "depth (rooms_mutex st) = 0 \<Longrightarrow>
     lock_rooms st = Inr (st\<lparr>rooms_mutex := (rooms_mutex st)\<lparr>depth := 1\<rparr>\<rparr>)"
  by (simp add: lock_rooms_def lock_simps)

lemma list_rooms_eq:
  assumes "10 < response_size" and "response_size < 2 ^ 64" and "depth (rooms_mutex st) = 0"
  shows "list_rooms response response_size st = Inr (take (response_size - 1) (room_list st), st)"
proof -
  have 1: "snprintf_at response response_size 0 rooms_header = Inr rooms_header"
    using snprintf_at_inside [of 0 response_size response rooms_header] assms(1,2) by simp
  have 2: "snprintf_at rooms_header response_size 10 ''No rooms created'' =
      Inr (take (response_size - 1) (rooms_header @ ''No rooms created''))"
    using snprintf_at_end [of rooms_header response_size "''No rooms created''"] assms(1,2)
    by (simp del: take_append)
  have 3: "list_loop response_size rs rooms_header 10 =
      Inr (take (response_size - 1) (rooms_header @ concat (map room_line (filter r_active rs))))" for rs
    using assms(1,2) by (intro list_loop_eq) simp_all
  show ?thesis
    unfolding list_rooms_def 1 lock_rooms_free [OF assms(3)]
    using 2 3 by (simp add: room_list_def unlock_rooms_def mutex_unlock_one [OF assms(3)] del: take_append)
qed

lemma list_loop_full: "int off \<ge> int sz - 1 \<Longrightarrow> list_loop sz rs buf off = Inr buf"
  by (cases rs) simp_all

lemma snprintf_at_head:
  assumes "sz < 2 ^ 64"
  shows "snprintf_at response sz 0 text =
     Inr (if sz = 0 then response else take (sz - 1) text)"
  using assms snprintf_at_inside [of 0 sz response "text"]
  by (cases "sz = 0") (simp_all add: snprintf_at_def)

lemma snprintf_at_wraps:
  assumes "sz < 10"
  shows "snprintf_at buf sz 10 ''No rooms created'' = Inl Out_Of_Bounds"
proof -
  have "(sz + 2 ^ 64 - 10) mod 2 ^ 64 = sz + 2 ^ 64 - 10" using assms by (intro mod_less) simp
  then show ?thesis using assms by (simp add: snprintf_at_def Let_def)
qed

section \<open>Properties\<close>



text \<open>Removing a room from the table and adding one of the same name again leaves exactly the
  other rooms and the new one: no entry of the removed room can be found.\<close>

theorem add_after_remove_room:
  assumes "table_inv st" and "name_fits name"
    and "add_room name sz (snd (remove_room name st)) = (0, st')"
  shows "lookup st' = (lookup st)(name \<mapsto> new_room name sz) \<and> table_inv st'"
proof
  have add: "try_add (snd (remove_room name st)) name sz = Some st'"
    using assms(3) by (simp add: try_add_Some)
  show "lookup st' = (lookup st)(name \<mapsto> new_room name sz)"
    by (rule dt.add_after_remove [OF assms(1,2) add])
  show "table_inv st'"
    by (rule dt.add_invar [OF dt.remove_invar [OF assms(1)] assms(2) dt.lookup_removed [OF assms(1,2)] add])
qed

theorem add_after_remove_room_witness:
  "lookup (snd (add_room ''a'' 7 (snd (remove_room ''a'' (snd (add_room ''a'' 5 daemon_start)))))) =
     (lookup (snd (add_room ''a'' 5 daemon_start)))(''a'' \<mapsto> new_room ''a'' 7)"
proof -
  have inv: "table_inv daemon_start" by (simp add: table_inv_def daemon_start_def MAX_ROOMS_def)
  have fits: "name_fits ''a''" by (simp add: name_fits_def MAX_ROOM_NAME_def)
  have add: "add_room ''a'' 5 daemon_start = (0, snd (add_room ''a'' 5 daemon_start))"
    by (simp add: add_room_eq [OF fits] daemon_start_def MAX_ROOMS_def)
  have inv1: "table_inv (snd (add_room ''a'' 5 daemon_start))"
    by (rule add_room_inv [OF inv fits _ add]) (simp add: find_room_None daemon_start_def)
  show ?thesis
    by (rule add_after_remove_room [THEN conjunct1, OF inv1 fits])
      (simp add: add_room_eq [OF fits] remove_room_def daemon_start_def MAX_ROOMS_def split: option.splits)
qed

end
