(* ===== verification/DaemonCommands.thy ===== *)
theory DaemonCommands
  imports DaemonRooms
begin

text \<open>
  The command handler of the socket daemon, \<^verbatim>\<open>handle_command\<close> and the \<^verbatim>\<open>cmd_\<close>
  functions of \<^verbatim>\<open>src/03-communication/daemon/command_handler.c\<close>.

  A pointer argument is an option (\<open>None\<close> is \<open>NULL\<close>); the response buffer is the string in
  it. Each function gives its return value, the response buffer and the globals, or faults.
  \<open>pid\<close> is the result of \<open>getpid()\<close>. The lines sent to syslog are not modelled.

  \<open>parse_request\<close> and \<open>serve\<close> say abstractly what a command line asks for and what a map
  from names to rooms answers; \<open>handle_command_serves\<close> is the refinement.
\<close>

section \<open>The operations\<close>

type_synonym cmd_result = "(int \<times> string option \<times> daemon) outcome"

definition quoted :: "string \<Rightarrow> string" where
  "quoted s = CHR 0x27 # s @ [CHR 0x27]"

definition reply :: "string option \<Rightarrow> nat \<Rightarrow> string \<Rightarrow> string option" where
  "reply response response_size text = map_option (\<lambda>old. snprintf_c old response_size text) response"

definition set_room :: "nat \<Rightarrow> room \<Rightarrow> daemon \<Rightarrow> daemon" where
  "set_room i r st = st\<lparr>rooms := (rooms st)[i := r]\<rparr>"

definition cmd_create_room ::
  "string option \<Rightarrow> int \<Rightarrow> string option \<Rightarrow> nat \<Rightarrow> daemon \<Rightarrow> cmd_result" where
  "cmd_create_room room_name room_size response response_size st =
     (case room_name of
        None \<Rightarrow> Inr (-1, response, st)
      | Some name \<Rightarrow>
          if response = None then Inr (-1, response, st)
          else if room_size \<le> 0 \<or> room_size > 10000 then
            Inr (0, reply response response_size ''ERROR Invalid room size (must be 1-10000)'', st)
          else
            (case lock_rooms st of
               Inl f \<Rightarrow> Inl f
             | Inr st \<Rightarrow>
                 if find_room st name \<noteq> None then
                   Inr (0, reply response response_size
                             (''ERROR Room '' @ quoted name @ '' already exists''), unlock_rooms st)
                 else
                   (case add_room name room_size st of (r, st') \<Rightarrow>
                      if r < 0 then
                        Inr (0, reply response response_size
                                  (''ERROR Failed to create room '' @ quoted name), unlock_rooms st')
                      else
                        Inr (0, reply response response_size
                                  (''OK Room '' @ quoted name @ '' created with size '' @ show_int room_size),
                             unlock_rooms st'))))"

definition cmd_start_room ::
  "int \<Rightarrow> string option \<Rightarrow> string option \<Rightarrow> nat \<Rightarrow> daemon \<Rightarrow> cmd_result" where
  "cmd_start_room pid room_name response response_size st =
     (case room_name of
        None \<Rightarrow> Inr (-1, response, st)
      | Some name \<Rightarrow>
          if response = None then Inr (-1, response, st)
          else
            (case lock_rooms st of
               Inl f \<Rightarrow> Inl f
             | Inr st \<Rightarrow>
                 (case find_room st name of
                    None \<Rightarrow> Inr (0, reply response response_size
                                      (''ERROR Room '' @ quoted name @ '' not found''), unlock_rooms st)
                  | Some i \<Rightarrow>
                      if r_status (rooms st ! i) = ROOM_RUNNING then
                        Inr (0, reply response response_size
                                  (''ERROR Room '' @ quoted name @ '' is already running''),
                             unlock_rooms st)
                      else
                        Inr (0, reply response response_size
                                  (''OK Room '' @ quoted name @ '' monitoring started''),
                             unlock_rooms
                               (set_room i ((rooms st ! i)\<lparr>r_status := ROOM_RUNNING, r_pid := pid\<rparr>) st)))))"

definition cmd_stop_room ::
  "string option \<Rightarrow> string option \<Rightarrow> nat \<Rightarrow> daemon \<Rightarrow> cmd_result" where
  "cmd_stop_room room_name response response_size st =
     (case room_name of
        None \<Rightarrow> Inr (-1, response, st)
      | Some name \<Rightarrow>
          if response = None then Inr (-1, response, st)
          else
            (case lock_rooms st of
               Inl f \<Rightarrow> Inl f
             | Inr st \<Rightarrow>
                 (case find_room st name of
                    None \<Rightarrow> Inr (0, reply response response_size
                                      (''ERROR Room '' @ quoted name @ '' not found''), unlock_rooms st)
                  | Some i \<Rightarrow>
                      if r_status (rooms st ! i) \<noteq> ROOM_RUNNING then
                        Inr (0, reply response response_size
                                  (''ERROR Room '' @ quoted name @ '' is not running''),
                             unlock_rooms st)
                      else
                        let r = (rooms st ! i)\<lparr>r_status := ROOM_STOPPED\<rparr>;
                            r' = (if r_pid r > 0 then r\<lparr>r_pid := 0\<rparr> else r)
                        in Inr (0, reply response response_size
                                     (''OK Room '' @ quoted name @ '' monitoring stopped''),
                                unlock_rooms (set_room i r' st)))))"

definition cmd_show_room ::
  "string option \<Rightarrow> string option \<Rightarrow> nat \<Rightarrow> daemon \<Rightarrow> cmd_result" where
  "cmd_show_room room_name response response_size st =
     (case room_name of
        None \<Rightarrow> Inr (-1, response, st)
      | Some name \<Rightarrow>
          if response = None then Inr (-1, response, st)
          else
            (case lock_rooms st of
               Inl f \<Rightarrow> Inl f
             | Inr st \<Rightarrow>
                 (case find_room st name of
                    None \<Rightarrow> Inr (0, reply response response_size
                                      (''ERROR Room '' @ quoted name @ '' not found''), unlock_rooms st)
                  | Some i \<Rightarrow>
                      let r = rooms st ! i
                      in Inr (0, reply response response_size
                                   (''OK Room: '' @ r_name r @ '', Size: '' @ show_int (r_size r) @
                                    '', Status: '' @ room_status_string (r_status r) @
                                    '', PID: '' @ show_int (r_pid r)),
                              unlock_rooms st))))"

definition cmd_exit_daemon :: "string option \<Rightarrow> nat \<Rightarrow> daemon \<Rightarrow> cmd_result" where
  "cmd_exit_daemon response response_size st =
     (if response = None then Inr (-1, response, st)
      else Inr (1, reply response response_size ''OK Daemon shutting down'', st))"

section \<open>handle_command\<close>

text \<open>
  The three \<open>sscanf\<close> attempts: how many items were read, and the items. An item that was
  not read is given as an empty word or 0; the code never uses it.
\<close>

definition scan_command :: "string \<Rightarrow> nat \<times> string \<times> string \<times> int" where
  "scan_command command =
     (case scan_s 63 command of
        None \<Rightarrow> (0, [], [], 0)
      | Some (cmd, rest) \<Rightarrow>
          (case scan_s 63 rest of
             None \<Rightarrow> (1, cmd, [], 0)
           | Some (room_name, rest') \<Rightarrow>
               (case scan_d rest' of
                  None \<Rightarrow> (2, cmd, room_name, 0)
                | Some (room_size, _) \<Rightarrow> (3, cmd, room_name, room_size))))"

definition handle_command ::
  "int \<Rightarrow> string option \<Rightarrow> string option \<Rightarrow> nat \<Rightarrow> daemon \<Rightarrow> cmd_result" where
  "handle_command pid command response response_size st =
     (case command of
        None \<Rightarrow> Inr (-1, response, st)
      | Some line \<Rightarrow>
        (case response of
           None \<Rightarrow> Inr (-1, response, st)
         | Some buf \<Rightarrow>
          if response_size = 0 then Inr (-1, response, st)
          else
            (case scan_command line of (parsed, cmd, room_name, room_size) \<Rightarrow>
               if parsed = 0 then
                 Inr (0, reply response response_size ''ERROR Invalid command format'', st)
               else if cmd = ''CREATE'' then
                 if parsed < 3 then
                   Inr (0, reply response response_size ''ERROR CREATE requires room name and size'', st)
                 else cmd_create_room (Some room_name) room_size response response_size st
               else if cmd = ''START'' then
                 if parsed < 2 then
                   Inr (0, reply response response_size ''ERROR START requires room name'', st)
                 else cmd_start_room pid (Some room_name) response response_size st
               else if cmd = ''STOP'' then
                 if parsed < 2 then
                   Inr (0, reply response response_size ''ERROR STOP requires room name'', st)
                 else cmd_stop_room (Some room_name) response response_size st
               else if cmd = ''SHOW'' then
                 if parsed < 2 then
                   (case list_rooms buf response_size st of
                      Inl f \<Rightarrow> Inl f | Inr (buf', st') \<Rightarrow> Inr (0, Some buf', st'))
                 else
                   (case cmd_show_room (Some room_name) response response_size st of
                      Inl f \<Rightarrow> Inl f | Inr (_, response', st') \<Rightarrow> Inr (0, response', st'))
               else if cmd = ''EXIT'' then cmd_exit_daemon response response_size st
               else
                 Inr (0, reply response response_size (''ERROR Unknown command: '' @ cmd), st))))"

section \<open>The abstract service\<close>

text \<open>
  What a command line asks for, and what a map from names to rooms answers: the return
  value, the whole text of the answer and the new map. \<open>used\<close> is the number of rooms that
  were ever created; the table has \<open>MAX_ROOMS\<close> slots and never takes one back.
\<close>

datatype request =
    Bad string
  | Create_Room string int
  | Start_Room string
  | Stop_Room string
  | Show_Room string
  | Show_All
  | Exit_Daemon

definition parse_request :: "string \<Rightarrow> request" where
  "parse_request line =
     (case scan_command line of (parsed, cmd, name, sz) \<Rightarrow>
        if parsed = 0 then Bad ''ERROR Invalid command format''
        else if cmd = ''CREATE'' then
          if parsed < 3 then Bad ''ERROR CREATE requires room name and size'' else Create_Room name sz
        else if cmd = ''START'' then
          if parsed < 2 then Bad ''ERROR START requires room name'' else Start_Room name
        else if cmd = ''STOP'' then
          if parsed < 2 then Bad ''ERROR STOP requires room name'' else Stop_Room name
        else if cmd = ''SHOW'' then if parsed < 2 then Show_All else Show_Room name
        else if cmd = ''EXIT'' then Exit_Daemon
        else Bad (''ERROR Unknown command: '' @ cmd))"

type_synonym room_map = "string \<Rightarrow> room option"

definition not_found :: "string \<Rightarrow> string" where
  "not_found name = ''ERROR Room '' @ quoted name @ '' not found''"

definition describe :: "room \<Rightarrow> string" where
  "describe r = ''OK Room: '' @ r_name r @ '', Size: '' @ show_int (r_size r) @ '', Status: '' @
                room_status_string (r_status r) @ '', PID: '' @ show_int (r_pid r)"

definition started :: "int \<Rightarrow> room \<Rightarrow> room" where
  "started pid r = r\<lparr>r_status := ROOM_RUNNING, r_pid := pid\<rparr>"

definition stopped :: "room \<Rightarrow> room" where
  "stopped r = r\<lparr>r_status := ROOM_STOPPED, r_pid := (if r_pid r > 0 then 0 else r_pid r)\<rparr>"

fun serve :: "int \<Rightarrow> nat \<Rightarrow> string \<Rightarrow> room_map \<Rightarrow> request \<Rightarrow> int \<times> string \<times> room_map" where
  "serve pid used listing m (Bad msg) = (0, msg, m)"
| "serve pid used listing m (Create_Room name sz) =
     (if sz \<le> 0 \<or> sz > 10000 then (0, ''ERROR Invalid room size (must be 1-10000)'', m)
      else if m name \<noteq> None then (0, ''ERROR Room '' @ quoted name @ '' already exists'', m)
      else if used \<ge> MAX_ROOMS then (0, ''ERROR Failed to create room '' @ quoted name, m)
      else (0, ''OK Room '' @ quoted name @ '' created with size '' @ show_int sz,
            m(name \<mapsto> new_room name sz)))"
| "serve pid used listing m (Start_Room name) =
     (case m name of
        None \<Rightarrow> (0, not_found name, m)
      | Some r \<Rightarrow>
          if r_status r = ROOM_RUNNING
          then (0, ''ERROR Room '' @ quoted name @ '' is already running'', m)
          else (0, ''OK Room '' @ quoted name @ '' monitoring started'', m(name \<mapsto> started pid r)))"
| "serve pid used listing m (Stop_Room name) =
     (case m name of
        None \<Rightarrow> (0, not_found name, m)
      | Some r \<Rightarrow>
          if r_status r \<noteq> ROOM_RUNNING
          then (0, ''ERROR Room '' @ quoted name @ '' is not running'', m)
          else (0, ''OK Room '' @ quoted name @ '' monitoring stopped'', m(name \<mapsto> stopped r)))"
| "serve pid used listing m (Show_Room name) =
     (case m name of None \<Rightarrow> (0, not_found name, m) | Some r \<Rightarrow> (0, describe r, m))"
| "serve pid used listing m Show_All = (0, listing, m)"
| "serve pid used listing m Exit_Daemon = (1, ''OK Daemon shutting down'', m)"

section \<open>The operations without their locking\<close>

text \<open>
  With the mutex free, each operation takes it, works and gives it back: its effect is that
  of the critical section alone.
\<close>

lemma find_room_mutex [simp]: "find_room (st\<lparr>rooms_mutex := m\<rparr>) name = find_room st name"
  by (simp add: find_room_def)

lemma add_room_mutex:
  "add_room name sz (st\<lparr>rooms_mutex := m\<rparr>) =
     (fst (add_room name sz st), (snd (add_room name sz st))\<lparr>rooms_mutex := m\<rparr>)"
  by (simp add: add_room_def Let_def)

lemma add_room_keeps:
  "rooms_mutex (snd (add_room name sz st)) = rooms_mutex st"
  "daemon_running (snd (add_room name sz st)) = daemon_running st"
  by (simp_all add: add_room_def Let_def)

lemma unlock_after:
  "rooms_mutex st' = rooms_mutex st \<Longrightarrow> depth (rooms_mutex st) = 0 \<Longrightarrow>
     unlock_rooms (st'\<lparr>rooms_mutex := (rooms_mutex st)\<lparr>depth := Suc 0\<rparr>\<rparr>) = st'"
  by (simp add: unlock_rooms_def mutex_unlock_one flip: One_nat_def)

lemma set_room_mutex:
  "set_room i r (st\<lparr>rooms_mutex := m\<rparr>) = (set_room i r st)\<lparr>rooms_mutex := m\<rparr>"
  by (simp add: set_room_def)

lemma set_room_keeps [simp]:
  "rooms_mutex (set_room i r st) = rooms_mutex st"
  "daemon_running (set_room i r st) = daemon_running st"
  "room_count (set_room i r st) = room_count st"
  by (simp_all add: set_room_def)

lemmas unlocking = lock_rooms_free unlock_after add_room_mutex add_room_keeps set_room_mutex

lemma cmd_create_eq:
  assumes "depth (rooms_mutex st) = 0"
  shows "cmd_create_room (Some name) sz (Some buf) size_r st =
    (if sz \<le> 0 \<or> sz > 10000 then
       Inr (0, reply (Some buf) size_r ''ERROR Invalid room size (must be 1-10000)'', st)
     else if find_room st name \<noteq> None then
       Inr (0, reply (Some buf) size_r (''ERROR Room '' @ quoted name @ '' already exists''), st)
     else if fst (add_room name sz st) < 0 then
       Inr (0, reply (Some buf) size_r (''ERROR Failed to create room '' @ quoted name), st)
     else
       Inr (0, reply (Some buf) size_r
          (''OK Room '' @ quoted name @ '' created with size '' @ show_int sz), snd (add_room name sz st)))"
  using assms
  by (auto simp: cmd_create_room_def unlocking split: prod.splits) (auto simp: add_room_def Let_def split: if_splits)

lemma cmd_start_eq:
  assumes "depth (rooms_mutex st) = 0"
  shows "cmd_start_room pid (Some name) (Some buf) size_r st =
    (case find_room st name of
       None \<Rightarrow> Inr (0, reply (Some buf) size_r (not_found name), st)
     | Some i \<Rightarrow>
         if r_status (rooms st ! i) = ROOM_RUNNING then
           Inr (0, reply (Some buf) size_r (''ERROR Room '' @ quoted name @ '' is already running''), st)
         else
           Inr (0, reply (Some buf) size_r (''OK Room '' @ quoted name @ '' monitoring started''),
                set_room i (started pid (rooms st ! i)) st))"
  using assms
  by (auto simp: cmd_start_room_def unlocking not_found_def started_def split: option.splits)

lemma cmd_stop_eq:
  assumes "depth (rooms_mutex st) = 0"
  shows "cmd_stop_room (Some name) (Some buf) size_r st =
    (case find_room st name of
       None \<Rightarrow> Inr (0, reply (Some buf) size_r (not_found name), st)
     | Some i \<Rightarrow>
         if r_status (rooms st ! i) \<noteq> ROOM_RUNNING then
           Inr (0, reply (Some buf) size_r (''ERROR Room '' @ quoted name @ '' is not running''), st)
         else
           Inr (0, reply (Some buf) size_r (''OK Room '' @ quoted name @ '' monitoring stopped''),
                set_room i (stopped (rooms st ! i)) st))"
  using assms
  by (auto simp: cmd_stop_room_def unlocking not_found_def stopped_def Let_def split: option.splits)

lemma cmd_show_eq:
  assumes "depth (rooms_mutex st) = 0"
  shows "cmd_show_room (Some name) (Some buf) size_r st =
    Inr (0, reply (Some buf) size_r
           (case find_room st name of None \<Rightarrow> not_found name | Some i \<Rightarrow> describe (rooms st ! i)), st)"
  using assms
  by (auto simp: cmd_show_room_def unlocking not_found_def describe_def Let_def split: option.splits)

text \<open>\<open>handle_command\<close> is parsing followed by the operation the request names.\<close>

fun perform :: "int \<Rightarrow> request \<Rightarrow> string \<Rightarrow> nat \<Rightarrow> daemon \<Rightarrow> cmd_result" where
  "perform pid (Bad msg) buf size_r st = Inr (0, reply (Some buf) size_r msg, st)"
| "perform pid (Create_Room name sz) buf size_r st = cmd_create_room (Some name) sz (Some buf) size_r st"
| "perform pid (Start_Room name) buf size_r st = cmd_start_room pid (Some name) (Some buf) size_r st"
| "perform pid (Stop_Room name) buf size_r st = cmd_stop_room (Some name) (Some buf) size_r st"
| "perform pid (Show_Room name) buf size_r st =
     (case cmd_show_room (Some name) (Some buf) size_r st of
        Inl f \<Rightarrow> Inl f | Inr (_, response', st') \<Rightarrow> Inr (0, response', st'))"
| "perform pid Show_All buf size_r st =
     (case list_rooms buf size_r st of Inl f \<Rightarrow> Inl f | Inr (buf', st') \<Rightarrow> Inr (0, Some buf', st'))"
| "perform pid Exit_Daemon buf size_r st = cmd_exit_daemon (Some buf) size_r st"

lemma handle_command_perform:
  "0 < size_r \<Longrightarrow> handle_command pid (Some line) (Some buf) size_r st =
     perform pid (parse_request line) buf size_r st"
  by (simp add: handle_command_def parse_request_def split: prod.splits)

section \<open>Names\<close>

text \<open>Names that come out of the parser are words that fit the name array.\<close>

definition request_ok :: "request \<Rightarrow> bool" where
  "request_ok q \<longleftrightarrow>
     (case q of
        Create_Room name sz \<Rightarrow> is_word name \<and> name_fits name \<and> int32 sz
      | Start_Room name \<Rightarrow> is_word name \<and> name_fits name
      | Stop_Room name \<Rightarrow> is_word name \<and> name_fits name
      | Show_Room name \<Rightarrow> is_word name \<and> name_fits name
      | _ \<Rightarrow> True)"

lemma scan_s_c_string: "scan_s width s = Some (w, r) \<Longrightarrow> c_string s \<Longrightarrow> c_string r"
  by (auto simp: scan_s_def Let_def c_string_def split: if_splits
      dest!: in_set_dropD set_dropWhileD)

lemma scan_command_ok:
  assumes "c_string line" and "scan_command line = (n, cmd, name, sz)" and "2 \<le> n"
  shows "is_word name" and "name_fits name" and "n = 3 \<longrightarrow> int32 sz"
proof -
  obtain rest rest' where 1: "scan_s 63 line = Some (cmd, rest)" and 2: "scan_s 63 rest = Some (name, rest')"
    and 3: "n = 3 \<longrightarrow> (\<exists>r. scan_d rest' = Some (sz, r))"
    using assms(2,3) by (auto simp: scan_command_def split: option.splits prod.splits)
  show "is_word name" using scan_s_is_word [OF 2 scan_s_c_string [OF 1 assms(1)]] by simp
  show "name_fits name" using scan_s_bound [OF 2] by (simp add: name_fits_def MAX_ROOM_NAME_def)
  show "n = 3 \<longrightarrow> int32 sz" using 3 scan_d_int32 by blast
qed

lemma scan_command_range: "fst (scan_command line) \<le> 3"
  by (simp add: scan_command_def split: option.splits prod.splits)

lemma parse_request_ok:
  assumes "c_string line"
  shows "request_ok (parse_request line)"
proof -
  obtain n cmd name sz where scan: "scan_command line = (n, cmd, name, sz)"
    by (cases "scan_command line") auto
  then have "n \<le> 3" using scan_command_range [of line] by simp
  then have "\<not> n < 3 \<Longrightarrow> n = 3" by simp
  with scan_command_ok [OF assms scan] show ?thesis
    by (simp add: parse_request_def scan request_ok_def)
qed

section \<open>Refinement of the abstract service\<close>

lemma set_room_inv:
  assumes "table_inv st" and "find_room st name = Some i" and "r_name r = name"
  shows "table_inv (set_room i r st)"
proof -
  have "i < length (rooms st)" using assms(1) find_room_Some(1) [OF assms(2)] by (simp add: table_inv_def)
  then show ?thesis
    using assms find_room_Some [OF assms(2)]
    by (auto simp: table_inv_def set_room_def nth_list_update)
qed

lemma live_set_room:
  assumes "table_inv st" and "find_room st name = Some i"
  shows "live (set_room i r st) = (live st)[i := r]" and "i < length (live st)"
    and "live st ! i = rooms st ! i"
  using assms find_room_Some [OF assms(2)]
  by (simp_all add: live_def table_inv_def set_room_def take_update_swap)

lemma set_room_lookup:
  assumes "table_inv st" and "find_room st name = Some i" and "r_name r = name" and "r_active r"
  shows "lookup (set_room i r st) = (lookup st)(name \<mapsto> r)"
proof
  fix k
  have inv': "table_inv (set_room i r st)" by (rule set_room_inv [OF assms(1-3)])
  note i = live_set_room [OF assms(1,2)] find_room_Some [OF assms(2)]
  show "lookup (set_room i r st) k = ((lookup st)(name \<mapsto> r)) k"
  proof (cases "k = name")
    case True
    then show ?thesis
      using i assms(3,4) by (simp add: lookup_Some [OF inv'] set_update_memI)
  next
    case False
    have "lookup (set_room i r st) k = lookup st k"
      using False i assms(3)
      by (intro lookup_eqI [OF assms(1) inv'], unfold i(1), intro set_list_update_other) auto
    with False show ?thesis by simp
  qed
qed

lemma lookup_find [simp]:
  "find_room st name = Some i \<Longrightarrow> lookup st name = Some (rooms st ! i)"
  "find_room st name = None \<Longrightarrow> lookup st name = None"
  by (simp_all add: lookup_def)

text \<open>An outcome of the code that shows what the abstract service answers.\<close>

definition serves :: "cmd_result \<Rightarrow> nat \<Rightarrow> daemon \<Rightarrow> int \<times> string \<times> room_map \<Rightarrow> bool" where
  "serves res size_r st a \<longleftrightarrow>
     (case a of (r, answer, m) \<Rightarrow>
        (\<exists>st'. res = Inr (r, Some (take (size_r - 1) answer), st') \<and> lookup st' = m \<and> table_inv st' \<and>
               rooms_mutex st' = rooms_mutex st \<and> daemon_running st' = daemon_running st))"

lemma reply_serves:
  "table_inv st' \<Longrightarrow> 0 < size_r \<Longrightarrow> rooms_mutex st' = rooms_mutex st \<Longrightarrow>
     daemon_running st' = daemon_running st \<Longrightarrow> lookup st' = m \<Longrightarrow>
     serves (Inr (r, reply (Some buf) size_r msg, st')) size_r st (r, msg, m)"
  by (simp add: serves_def reply_def snprintf_c_def)

lemma perform_serves:
  assumes "table_inv st" and "depth (rooms_mutex st) = 0" and "10 < size_r" and "size_r < 2 ^ 64"
    and "request_ok q"
  shows "serves (perform pid q buf size_r st) size_r st
     (serve pid (room_count st) (room_list st) (lookup st) q)"
proof (cases q)
  case (Bad msg)
  with assms show ?thesis by (simp add: reply_serves)
next
  case (Create_Room name sz)
  then have fits: "name_fits name" using assms(5) by (simp add: request_ok_def)
  show ?thesis
  proof (cases "find_room st name")
    case None
    note add = add_room_inv [OF assms(1) fits None] add_room_lookup [OF assms(1) fits None]
    show ?thesis
      using assms None add fits Create_Room add_room_keeps [of name sz st]
      by (auto simp: cmd_create_eq add_room_eq intro!: reply_serves)
  qed (use assms Create_Room in \<open>auto simp: cmd_create_eq intro!: reply_serves\<close>)
next
  case (Start_Room name)
  with assms show ?thesis
    by (auto simp: cmd_start_eq started_def find_room_Some set_room_inv set_room_lookup
        intro!: reply_serves split: option.splits)
next
  case (Stop_Room name)
  with assms show ?thesis
    by (auto simp: cmd_stop_eq stopped_def find_room_Some set_room_inv set_room_lookup
        intro!: reply_serves split: option.splits)
next
  case (Show_Room name)
  with assms show ?thesis
    by (auto simp: cmd_show_eq intro!: reply_serves split: option.splits)
next
  case Show_All
  with assms show ?thesis by (simp add: list_rooms_eq serves_def)
next
  case Exit_Daemon
  with assms show ?thesis by (simp add: cmd_exit_daemon_def reply_serves)
qed

section \<open>The daemon as a machine\<close>

text \<open>
  A step is one received command, handled with the 1024-byte response buffer of
  \<^verbatim>\<open>handle_client\<close>. The received bytes end at the first NUL for the handler.
\<close>

definition BUFFER_SIZE :: nat where "BUFFER_SIZE = 1024"

definition daemon_step :: "int \<Rightarrow> daemon \<Rightarrow> char list \<Rightarrow> daemon" where
  "daemon_step pid st bytes =
     (case handle_command pid (Some (cstr bytes)) (Some []) BUFFER_SIZE st of
        Inl _ \<Rightarrow> st | Inr (_, _, st') \<Rightarrow> st')"

definition room_wf :: "int \<Rightarrow> room \<Rightarrow> bool" where
  "room_wf pid r \<longleftrightarrow>
     is_word (r_name r) \<and> name_fits (r_name r) \<and> 1 \<le> r_size r \<and> r_size r \<le> 10000 \<and> r_active r \<and>
     (r_status r = ROOM_RUNNING \<longrightarrow> r_pid r = pid) \<and>
     (r_status r \<noteq> ROOM_RUNNING \<and> 0 < pid \<longrightarrow> r_pid r = 0)"

definition daemon_inv :: "int \<Rightarrow> daemon \<Rightarrow> bool" where
  "daemon_inv pid st \<longleftrightarrow>
     table_inv st \<and> depth (rooms_mutex st) = 0 \<and> (\<forall>r \<in> set (live st). room_wf pid r)"

lemma daemon_inv_start: "daemon_inv pid daemon_start"
  by (simp add: daemon_inv_def table_inv_def daemon_start_def live_def MAX_ROOMS_def)

lemma set_room_daemon_inv:
  assumes "daemon_inv pid st" and "find_room st name = Some i" and "room_wf pid r" and "r_name r = name"
  shows "daemon_inv pid (set_room i r st)"
proof -
  have inv: "table_inv st" using assms(1) by (simp add: daemon_inv_def)
  have "set ((live st)[i := r]) \<subseteq> insert r (set (live st))" by (rule set_update_subset_insert)
  then show ?thesis
    using assms(1,3) set_room_inv [OF inv assms(2,4)]
    by (auto simp: daemon_inv_def live_set_room [OF inv assms(2)])
qed

lemma found_room_wf:
  assumes "daemon_inv pid st" and "find_room st name = Some i"
  shows "room_wf pid (rooms st ! i)" and "r_name (rooms st ! i) = name"
proof -
  have inv: "table_inv st" using assms(1) by (simp add: daemon_inv_def)
  show "room_wf pid (rooms st ! i)"
    using assms(1) live_set_room(2,3) [OF inv assms(2)] by (auto simp: daemon_inv_def dest: nth_mem)
  show "r_name (rooms st ! i) = name" by (rule find_room_Some [OF assms(2)])
qed

lemma perform_inv:
  assumes "daemon_inv pid st" and "request_ok q" and "10 < size_r" and "size_r < 2 ^ 64"
    and "perform pid q buf size_r st = Inr (r, resp, st')"
  shows "daemon_inv pid st'"
proof -
  have inv: "table_inv st" and free: "depth (rooms_mutex st) = 0"
    using assms(1) by (simp_all add: daemon_inv_def)
  show ?thesis
  proof (cases q)
    case (Create_Room name sz)
    then have ok: "is_word name" "name_fits name" using assms(2) by (simp_all add: request_ok_def)
    show ?thesis
    proof (cases "snd (add_room name sz st) = st' \<and> fst (add_room name sz st) = 0 \<and>
        find_room st name = None \<and> 0 < sz \<and> sz \<le> 10000")
      case True
      then have add: "add_room name sz st = (0, st')" by (simp add: prod_eq_iff)
      then have "live st' = live st @ [new_room name sz]" by (rule live_add_room [OF inv ok(2)])
      moreover have "table_inv st'" using add_room_inv [OF inv ok(2) _ add] True by simp
      moreover have "rooms_mutex st' = rooms_mutex st" using add add_room_keeps(1) [of name sz st] by simp
      ultimately show ?thesis
        using assms(1) ok True by (auto simp: daemon_inv_def room_wf_def)
    next
      case False
      then have "st' = st"
        using assms(5) ok by (auto simp: Create_Room cmd_create_eq [OF free] add_room_eq split: if_splits)
      then show ?thesis using assms(1) by simp
    qed
  next
    case (Start_Room name)
    then show ?thesis
      using assms(1,5) found_room_wf [OF assms(1), of name]
      by (auto simp: cmd_start_eq [OF free] started_def room_wf_def split: option.splits if_splits
          intro!: set_room_daemon_inv)
  next
    case (Stop_Room name)
    then show ?thesis
      using assms(1,5) found_room_wf [OF assms(1), of name]
      by (auto simp: cmd_stop_eq [OF free] stopped_def room_wf_def split: option.splits if_splits
          intro!: set_room_daemon_inv)
  next
    case (Show_Room name)
    then show ?thesis using assms(1,5) by (auto simp: cmd_show_eq [OF free])
  next
    case Show_All
    then show ?thesis using assms(1,3,4,5) by (auto simp: list_rooms_eq [OF _ _ free])
  next
    case Exit_Daemon
    then show ?thesis using assms(1,5) by (auto simp: cmd_exit_daemon_def)
  qed (use assms(1,5) in simp)
qed

lemma handle_command_total:
  assumes "daemon_inv pid st" and "c_string line" and "10 < size_r" and "size_r < 2 ^ 64"
  shows "serves (handle_command pid (Some line) (Some buf) size_r st) size_r st
     (serve pid (room_count st) (room_list st) (lookup st) (parse_request line))"
  using assms perform_serves [of st size_r "parse_request line" pid buf] parse_request_ok [OF assms(2)]
  by (simp add: handle_command_perform daemon_inv_def)

lemma handle_command_inv:
  assumes "daemon_inv pid st" and "c_string line" and "10 < size_r" and "size_r < 2 ^ 64"
    and "handle_command pid (Some line) (Some buf) size_r st = Inr (r, resp, st')"
  shows "daemon_inv pid st'"
  using perform_inv [OF assms(1) parse_request_ok [OF assms(2)] assms(3,4)] assms(3,5)
  by (simp add: handle_command_perform)

lemma daemon_step_Inr:
  assumes "daemon_inv pid st"
  shows "\<exists>r resp. handle_command pid (Some (cstr bytes)) (Some []) BUFFER_SIZE st =
     Inr (r, resp, daemon_step pid st bytes)"
  using handle_command_total [OF assms c_string_cstr [of bytes], of BUFFER_SIZE "[]"]
  by (auto simp: serves_def BUFFER_SIZE_def daemon_step_def split: prod.splits)

lemma daemon_step_inv: "daemon_inv pid st \<Longrightarrow> daemon_inv pid (daemon_step pid st bytes)"
  using daemon_step_Inr [of pid st bytes] handle_command_inv [of pid st "cstr bytes" BUFFER_SIZE]
  by (fastforce simp: BUFFER_SIZE_def)

interpretation dm: machine "daemon_step pid" daemon_start "daemon_inv pid" for pid
  by unfold_locales (rule daemon_inv_start, rule daemon_step_inv)

section \<open>What a command does to the rooms\<close>

lemma daemon_step_serve:
  assumes "daemon_inv pid st"
  shows "lookup (daemon_step pid st bytes) =
     snd (snd (serve pid (room_count st) (room_list st) (lookup st) (parse_request (cstr bytes))))"
  using handle_command_total [OF assms c_string_cstr [of bytes], of BUFFER_SIZE "[]"]
  by (auto simp: serves_def BUFFER_SIZE_def daemon_step_def split: prod.splits)

text \<open>The life of a room: created, then running and stopped by turns.\<close>

inductive status_step :: "room_status \<Rightarrow> room_status \<Rightarrow> bool" where
  first_start: "status_step ROOM_CREATED ROOM_RUNNING"
| stop: "status_step ROOM_RUNNING ROOM_STOPPED"
| restart: "status_step ROOM_STOPPED ROOM_RUNNING"

inductive_simps to_created: "status_step s ROOM_CREATED"
inductive_simps to_running: "status_step s ROOM_RUNNING"
inductive_simps from_running: "status_step ROOM_RUNNING s"

lemma not_back_to_created: "status_step\<^sup>*\<^sup>* s ROOM_CREATED \<Longrightarrow> s = ROOM_CREATED"
  by (erule rtranclp.cases) (simp_all add: to_created)

lemma start_status: "r_status r \<noteq> ROOM_RUNNING \<Longrightarrow> status_step (r_status r) ROOM_RUNNING"
  by (cases "r_status r") (simp_all add: to_running)

definition grows_to :: "room \<Rightarrow> room \<Rightarrow> bool" where
  "grows_to r r' \<longleftrightarrow>
     r_name r' = r_name r \<and> r_size r' = r_size r \<and> status_step\<^sup>*\<^sup>* (r_status r) (r_status r')"

lemma grows_to_refl [simp]: "grows_to r r"
  by (simp add: grows_to_def)

lemma grows_to_trans: "grows_to r r' \<Longrightarrow> grows_to r' r'' \<Longrightarrow> grows_to r r''"
  by (auto simp: grows_to_def)

lemma grows_to_started: "r_status r \<noteq> ROOM_RUNNING \<Longrightarrow> grows_to r (started pid r)"
  by (auto simp: grows_to_def started_def intro: start_status)

lemma grows_to_stopped: "r_status r = ROOM_RUNNING \<Longrightarrow> grows_to r (stopped r)"
  by (auto simp: grows_to_def stopped_def intro: status_step.stop)

lemma serve_grows:
  "m name = Some r \<Longrightarrow> \<exists>r'. snd (snd (serve pid used listing m q)) name = Some r' \<and> grows_to r r'"
  by (cases q) (auto split: option.splits intro: grows_to_started grows_to_stopped)

lemma run_grows:
  "daemon_inv pid st \<Longrightarrow> lookup st name = Some r \<Longrightarrow>
     \<exists>r'. lookup (run (daemon_step pid) st ls) name = Some r' \<and> grows_to r r'"
proof (induction ls arbitrary: st r)
  case Nil
  then show ?case by simp
next
  case (Cons l ls)
  obtain r1 where r1: "lookup (daemon_step pid st l) name = Some r1" "grows_to r r1"
    using serve_grows [of "lookup st", OF Cons.prems(2)] daemon_step_serve [OF Cons.prems(1)] by metis
  then show ?case
    using Cons.IH [OF daemon_step_inv [OF Cons.prems(1)] r1(1)] by (auto intro: grows_to_trans)
qed

fun request_name :: "request \<Rightarrow> string option" where
  "request_name (Create_Room name _) = Some name"
| "request_name (Start_Room name) = Some name"
| "request_name (Stop_Room name) = Some name"
| "request_name (Show_Room name) = Some name"
| "request_name _ = None"

lemma serve_frame:
  "request_name q \<noteq> Some j \<Longrightarrow> snd (snd (serve pid used listing m q)) j = m j"
  by (cases q) (auto split: option.splits)

lemma perform_count:
  assumes "daemon_inv pid st" and "10 < size_r" and "size_r < 2 ^ 64"
    and "perform pid q buf size_r st = Inr (r, resp, st')"
  shows "room_count st \<le> room_count st'"
proof -
  have free: "depth (rooms_mutex st) = 0" using assms(1) by (simp add: daemon_inv_def)
  show ?thesis
    using assms(2-4)
    by (cases q)
      (auto simp: cmd_create_eq [OF free] cmd_start_eq [OF free] cmd_stop_eq [OF free]
        cmd_show_eq [OF free] list_rooms_eq [OF _ _ free] cmd_exit_daemon_def add_room_def Let_def
        split: option.splits if_splits)
qed

lemma daemon_step_count:
  assumes "daemon_inv pid st"
  shows "room_count st \<le> room_count (daemon_step pid st bytes)"
  using daemon_step_Inr [OF assms, of bytes] perform_count [OF assms, of BUFFER_SIZE]
  by (auto simp: handle_command_perform BUFFER_SIZE_def)

lemma full_table_step:
  assumes "daemon_inv pid st" and "room_count st = MAX_ROOMS"
  shows "dom (lookup (daemon_step pid st bytes)) = dom (lookup st)"
    and "room_count (daemon_step pid st bytes) = MAX_ROOMS"
proof -
  have "dom (snd (snd (serve pid MAX_ROOMS listing m q))) = dom m" for listing m q
    by (cases q) (auto split: option.splits)
  then show "dom (lookup (daemon_step pid st bytes)) = dom (lookup st)"
    by (simp add: daemon_step_serve [OF assms(1)] assms(2))
  have "table_inv (daemon_step pid st bytes)"
    using daemon_step_inv [OF assms(1)] by (simp add: daemon_inv_def)
  then show "room_count (daemon_step pid st bytes) = MAX_ROOMS"
    using daemon_step_count [OF assms(1), of bytes] assms(2) by (simp add: table_inv_def)
qed

section \<open>Properties\<close>

text \<open>C1. Whatever commands the daemon has handled before, its next command of any bytes is
  answered as the abstract service answers it: the return value, the text (cut to the 1024-byte
  buffer) and the table, seen as a map from names to rooms, are those of parsing the line and
  serving the request. No command hangs, none writes outside a buffer, and the mutex is free
  afterwards.\<close>

theorem commands_refine_service:
  "let st = run (daemon_step pid) daemon_start lines
   in serves (handle_command pid (Some (cstr bytes)) (Some buf) BUFFER_SIZE st) BUFFER_SIZE st
        (serve pid (room_count st) (room_list st) (lookup st) (parse_request (cstr bytes)))"
  using handle_command_total [OF dm.inv_reached c_string_cstr, of BUFFER_SIZE]
  by (simp add: Let_def BUFFER_SIZE_def)

text \<open>C23. In every state the daemon can reach by commands, the table is well formed: at most fifty
  slots used, no two rooms of one name, every room with a name that fits its array and a size
  between 1 and 10000, and a monitor process exactly when it runs; the mutex is free.\<close>

theorem reached_rooms_well_formed:
  "daemon_inv pid (run (daemon_step pid) daemon_start lines)"
  by (rule dm.inv_reached)

text \<open>C24. A room that exists keeps its size and exists for ever, whatever commands follow, and its
  status only moves from created to running, from running to stopped and from stopped to
  running: once started it is never in the created state again.\<close>

theorem room_lifecycle:
  assumes "daemon_inv pid st" and "lookup st name = Some r"
  shows "\<exists>r'. lookup (run (daemon_step pid) st lines) name = Some r' \<and> r_size r' = r_size r \<and>
     status_step\<^sup>*\<^sup>* (r_status r) (r_status r') \<and>
     (r_status r \<noteq> ROOM_CREATED \<longrightarrow> r_status r' \<noteq> ROOM_CREATED)"
  using run_grows [OF assms, of lines] not_back_to_created by (fastforce simp: grows_to_def)

theorem room_lifecycle_witness:
  "\<exists>r'. lookup (run (daemon_step 7) daemon_start [''CREATE a 5'', ''START a'', ''STOP a'']) ''a'' = Some r' \<and>
     r_size r' = 5 \<and> r_status r' \<noteq> ROOM_CREATED"
proof -
  let ?st = "run (daemon_step 7) daemon_start [''CREATE a 5'', ''START a'']"
  have "lookup ?st ''a'' = Some \<lparr>r_name = ''a'', r_size = 5, r_status = ROOM_RUNNING, r_pid = 7, r_active = True\<rparr>"
    by code_simp
  then show ?thesis
    using room_lifecycle [OF dm.inv_reached [of 7 "[''CREATE a 5'', ''START a'']"], of "''a''" _ "[''STOP a'']"]
    by (simp flip: run_append) (metis append.simps)
qed

text \<open>Rooms are independent: a command changes the entry of a name only if it is a command
  about that name.\<close>

theorem other_rooms_untouched:
  assumes "daemon_inv pid st" and "lookup (daemon_step pid st bytes) name \<noteq> lookup st name"
  shows "request_name (parse_request (cstr bytes)) = Some name"
  using assms(2) serve_frame [of "parse_request (cstr bytes)" name]
  by (auto simp: daemon_step_serve [OF assms(1)])

theorem other_rooms_untouched_witness:
  "request_name (parse_request (cstr ''CREATE a 5'')) = Some ''a''"
  by (rule other_rooms_untouched [OF dm.inv_start, of 7]) code_simp

text \<open>The table never takes a slot back: once fifty rooms have been created, the set of
  rooms stays the same whatever commands follow.\<close>

theorem full_table_is_final:
  assumes "daemon_inv pid st" and "room_count st = MAX_ROOMS"
  shows "dom (lookup (run (daemon_step pid) st lines)) = dom (lookup st)"
  using assms
proof (induction lines arbitrary: st)
  case (Cons l lines)
  then show ?case using full_table_step [OF Cons.prems, of l] daemon_step_inv [OF Cons.prems(1)] by simp
qed simp

theorem full_table_is_final_witness:
  "dom (lookup (run (daemon_step 7)
     (daemon_start\<lparr>rooms := map (\<lambda>i. new_room (show_nat i) 1) [0..<50], room_count := 50\<rparr>)
     [''CREATE x 5''])) =
   dom (lookup (daemon_start\<lparr>rooms := map (\<lambda>i. new_room (show_nat i) 1) [0..<50], room_count := 50\<rparr>))"
proof (rule full_table_is_final)
  let ?st = "daemon_start\<lparr>rooms := map (\<lambda>i. new_room (show_nat i) 1) [0..<50], room_count := 50\<rparr>"
  have inj: "show_nat i = show_nat j \<Longrightarrow> i = j" for i j by (metis digits_val_show_nat)
  then have "table_inv ?st" by (auto simp: table_inv_def MAX_ROOMS_def)
  moreover have "room_wf 7 (new_room (show_nat i) 1)" if "i < 50" for i
    using that show_nat_length [of i 1] show_int_word [of "int i"]
    by (simp add: room_wf_def name_fits_def MAX_ROOM_NAME_def show_int_def)
  ultimately show "daemon_inv 7 ?st"
    by (auto simp: daemon_inv_def live_def daemon_start_def)
qed (simp add: MAX_ROOMS_def)

end
