(* ===== verification/DaemonServer.thy ===== *)
theory DaemonServer
  imports DaemonCommands
begin

text \<open>
  The process around the command handler: \<^verbatim>\<open>socket_server.c\<close> and \<^verbatim>\<open>daemon_main.c\<close> of
  \<^verbatim>\<open>src/03-communication/daemon\<close>.

  The answers of the operating system are inputs of the model: each function takes the
  results of the calls it makes, in order, and gives its return value and the calls it made
  that matter (descriptors closed, memory freed, threads started, signals sent). A loop that
  waits for input takes the list of what arrives; when the list ends it is still waiting.

  \<open>sys_step\<close> puts the parts together: the listening thread, any number of client threads
  and signals, interleaved in any order over the shared globals. A command is one step: each
  \<open>handle_command\<close> has at most one critical section, and all it does outside is local to
  its thread.
\<close>

section \<open>Setting up the socket\<close>

datatype sys_call =
    Socket | Setsockopt int | Bind int nat | Listen int nat | Close int | Free int
  | Spawn int | Send int string | Kill int | Daemonize | Log string

definition SERVER_PORT :: nat where "SERVER_PORT = 8080"
definition MAX_CLIENTS :: nat where "MAX_CLIENTS = 10"

text \<open>The arguments are the results of \<open>socket\<close>, \<open>bind\<close> and \<open>listen\<close>; the results of the
  two \<open>setsockopt\<close> calls are only logged.\<close>

definition server_init :: "int \<Rightarrow> int \<Rightarrow> int \<Rightarrow> int \<times> sys_call list" where
  "server_init sock bind_r listen_r =
     (if sock < 0 then (-1, [Socket])
      else
        let opened = [Socket, Setsockopt sock, Setsockopt sock, Bind sock SERVER_PORT]
        in if bind_r < 0 then (-1, opened @ [Close sock])
           else if listen_r < 0 then (-1, opened @ [Listen sock MAX_CLIENTS, Close sock])
           else (sock, opened @ [Listen sock MAX_CLIENTS]))"

section \<open>The accept loop\<close>

text \<open>
  One turn of the loop: the value of \<open>daemon_running\<close> at its head and, when it is true, the
  result of \<open>accept\<close> (\<open>Inl\<close>: it failed, and whether \<open>errno\<close> was \<open>EINTR\<close>), whether
  \<open>malloc\<close> gave memory and whether the thread could be created.
\<close>

record turn =
  t_running :: bool
  t_accept :: "bool + int"
  t_malloc :: bool
  t_thread :: bool

fun server_listen :: "turn list \<Rightarrow> sys_call list \<times> int option" where
  "server_listen [] = ([], None)"
| "server_listen (t # ts) =
     (if \<not> t_running t then ([], Some 0)
      else case t_accept t of
        Inl eintr \<Rightarrow> if eintr then server_listen ts else ([], Some 0)
      | Inr fd \<Rightarrow>
          (case server_listen ts of (calls, r) \<Rightarrow>
             if \<not> t_malloc t then (Close fd # calls, r)
             else if \<not> t_thread t then (Close fd # Free fd # calls, r)
             else (Spawn fd # calls, r)))"

text \<open>The descriptors accepted before the loop ended, in order.\<close>

fun accepted :: "turn list \<Rightarrow> int list" where
  "accepted [] = []"
| "accepted (t # ts) =
     (if \<not> t_running t then []
      else case t_accept t of Inl eintr \<Rightarrow> if eintr then accepted ts else [] | Inr fd \<Rightarrow> fd # accepted ts)"

fun owned :: "sys_call \<Rightarrow> int option" where
  "owned (Close fd) = Some fd"
| "owned (Spawn fd) = Some fd"
| "owned _ = None"

lemma server_listen_owned: "List.map_filter owned (fst (server_listen ts)) = accepted ts"
  by (induction ts) (auto simp: map_filter_simps split: sum.splits prod.splits)

lemma server_listen_return: "snd (server_listen ts) \<in> {None, Some 0}"
  by (induction ts) (auto split: sum.splits prod.splits)

section \<open>One client\<close>

text \<open>
  One turn of the client loop: the value of \<open>daemon_running\<close> at its head, what \<open>recv\<close> gave
  (\<open>None\<close>: end of the connection or an error) and whether \<open>send\<close> succeeded. \<open>recv\<close> gives
  at most 1023 bytes, one less than the buffer.
\<close>

record client_turn =
  c_running :: bool
  c_recv :: "char list option"
  c_send :: bool

definition received :: "char list \<Rightarrow> char list" where
  "received bytes = take (BUFFER_SIZE - 1) bytes"

text \<open>
  The result: the calls made, the globals and whether the thread has ended (a fault ends
  nothing: the thread hangs or crashes).
\<close>

fun handle_client ::
  "int \<Rightarrow> int \<Rightarrow> client_turn list \<Rightarrow> daemon \<Rightarrow> (sys_call list \<times> daemon \<times> bool) outcome" where
  "handle_client pid fd [] st = Inr ([], st, False)"
| "handle_client pid fd (t # ts) st =
     (if \<not> c_running t then Inr ([Close fd, Free fd], st, True)
      else case c_recv t of
        None \<Rightarrow> Inr ([Close fd, Free fd], st, True)
      | Some bytes \<Rightarrow>
          (case handle_command pid (Some (cstr (received bytes))) (Some []) BUFFER_SIZE st of
             Inl f \<Rightarrow> Inl f
           | Inr (result, response, st') \<Rightarrow>
               let answer = (case response of None \<Rightarrow> [] | Some s \<Rightarrow> s)
               in if \<not> c_send t then Inr ([Send fd answer, Close fd, Free fd], st', True)
                  else if result = 1 then
                    Inr ([Send fd answer, Close fd, Free fd], st'\<lparr>daemon_running := False\<rparr>, True)
                  else
                    (case handle_client pid fd ts st' of
                       Inl f \<Rightarrow> Inl f
                     | Inr (calls, st'', ended) \<Rightarrow> Inr (Send fd answer # calls, st'', ended))))"

text \<open>The answers a client should get: one for each command, until it leaves, the daemon stops,
  an answer cannot be sent or the command is EXIT.\<close>

definition answer_to :: "int \<Rightarrow> daemon \<Rightarrow> char list \<Rightarrow> int \<times> string" where
  "answer_to pid st bytes =
     (case serve pid (room_count st) (room_list st) (lookup st) (parse_request (cstr (received bytes)))
      of (r, text, _) \<Rightarrow> (r, take (BUFFER_SIZE - 1) text))"

fun conversation :: "int \<Rightarrow> int \<Rightarrow> client_turn list \<Rightarrow> daemon \<Rightarrow> sys_call list" where
  "conversation pid fd [] st = []"
| "conversation pid fd (t # ts) st =
     (if \<not> c_running t then [Close fd, Free fd]
      else case c_recv t of
        None \<Rightarrow> [Close fd, Free fd]
      | Some bytes \<Rightarrow>
          (case answer_to pid st bytes of (r, answer) \<Rightarrow>
             Send fd answer #
             (if \<not> c_send t \<or> r = 1 then [Close fd, Free fd]
              else conversation pid fd ts (daemon_step pid st (received bytes)))))"

lemma handle_command_answer:
  assumes "daemon_inv pid st"
  shows "handle_command pid (Some (cstr (received bytes))) (Some []) BUFFER_SIZE st =
     Inr (fst (answer_to pid st bytes), Some (snd (answer_to pid st bytes)),
          daemon_step pid st (received bytes))"
  using daemon_step_Inr [OF assms, of "received bytes"]
    handle_command_total [OF assms c_string_cstr [of "received bytes"], of BUFFER_SIZE "[]"]
  by (auto simp: serves_def BUFFER_SIZE_def answer_to_def split: prod.splits)

lemma handle_client_conversation:
  assumes "daemon_inv pid st"
  shows "\<exists>st' ended. handle_client pid fd ts st = Inr (conversation pid fd ts st, st', ended)"
  using assms
proof (induction ts arbitrary: st)
  case Nil
  then show ?case by auto
next
  case (Cons t ts)
  show ?case
  proof (cases "c_recv t")
    case None
    then show ?thesis by auto
  next
    case (Some bytes)
    have "\<exists>st' ended. handle_client pid fd ts (daemon_step pid st (received bytes)) =
        Inr (conversation pid fd ts (daemon_step pid st (received bytes)), st', ended)"
      by (intro Cons.IH daemon_step_inv Cons.prems)
    then show ?thesis
      using Some by (auto simp: handle_command_answer [OF Cons.prems] split: prod.splits)
  qed
qed

section \<open>Signals and cleaning up\<close>

datatype signal = SIGTERM | SIGINT | SIGPIPE | SIGOTHER

fun signal_handler :: "signal \<Rightarrow> daemon \<Rightarrow> daemon" where
  "signal_handler SIGTERM st = st\<lparr>daemon_running := False\<rparr>"
| "signal_handler SIGINT st = st\<lparr>daemon_running := False\<rparr>"
| "signal_handler _ st = st"

fun kill_monitors :: "room list \<Rightarrow> sys_call list" where
  "kill_monitors [] = []"
| "kill_monitors (r # rs) =
     (if r_active r \<and> r_pid r > 0 then Kill (r_pid r) # kill_monitors rs else kill_monitors rs)"

definition cleanup_daemon :: "daemon \<Rightarrow> (sys_call list \<times> daemon) outcome" where
  "cleanup_daemon st =
     (case lock_rooms st of
        Inl f \<Rightarrow> Inl f
      | Inr st \<Rightarrow> Inr (kill_monitors (take (room_count st) (rooms st)), unlock_rooms st))"

text \<open>
  \<open>daemonize\<close>: the results of \<open>fork\<close>, \<open>setsid\<close>, \<open>chdir\<close> and \<open>open\<close> of the null device. The
  return value is \<open>None\<close> in the parent, which exits.
\<close>

datatype detach_call = Umask nat | Setsid | Chdir string | Close_Fd int | Open_Null | Dup2 int int

definition daemonize :: "int \<Rightarrow> int \<Rightarrow> int \<Rightarrow> int \<Rightarrow> int option \<times> detach_call list" where
  "daemonize fork_r setsid_r chdir_r open_r =
     (if fork_r < 0 then (Some (-1), [])
      else if fork_r > 0 then (None, [])
      else if setsid_r < 0 then (Some (-1), [Umask 0, Setsid])
      else if chdir_r < 0 then (Some (-1), [Umask 0, Setsid, Chdir ''/''])
      else
        (Some 0,
         [Umask 0, Setsid, Chdir ''/'', Close_Fd 0, Close_Fd 1, Close_Fd 2, Open_Null] @
         (if open_r \<noteq> -1 then [Dup2 open_r 0, Dup2 open_r 1, Dup2 open_r 2] @
                               (if open_r > 2 then [Close_Fd open_r] else [])
          else [])))"

text \<open>
  \<open>main\<close>: the exit status (\<open>None\<close>: still serving) and the calls after set-up. \<open>detached\<close> is
  what \<open>daemonize\<close> returned, \<open>net\<close> the results of \<open>socket\<close>, \<open>bind\<close> and \<open>listen\<close>, and \<open>st\<close>
  the state of the globals when the accept loop ends.
\<close>

definition daemon_main ::
  "string list \<Rightarrow> int option \<Rightarrow> int \<times> int \<times> int \<Rightarrow> turn list \<Rightarrow> daemon \<Rightarrow>
     int option \<times> sys_call list" where
  "daemon_main argv detached net turns st =
     (let foreground = (1 < length argv \<and> argv ! 1 = ''-f'');
          d = (if foreground then Some 0 else detached)
      in case d of
           None \<Rightarrow> (Some 0, [])
         | Some dr \<Rightarrow>
             if dr < 0 then (Some 1, [])
             else
               (case server_init (fst net) (fst (snd net)) (snd (snd net)) of (fd, calls) \<Rightarrow>
                  if fd < 0 then (Some 1, calls)
                  else
                    (case server_listen turns of (calls', r) \<Rightarrow>
                       (case r of
                          None \<Rightarrow> (None, calls @ calls')
                        | Some v \<Rightarrow>
                            if v < 0 then (Some 1, calls @ calls' @ [Close fd])
                            else
                              (Some 0, calls @ calls' @ [Close fd] @
                                 (case cleanup_daemon st of Inl _ \<Rightarrow> [] | Inr (kills, _) \<Rightarrow> kills))))))"

section \<open>The whole process\<close>

datatype listener = At_Check | In_Accept | Stopped

record sys =
  shared :: daemon
  listener :: listener
  clients :: "int set"
  sent :: "(int \<times> string) list"

definition sys_start :: sys where
  "sys_start = \<lparr>shared = daemon_start, listener = At_Check, clients = {}, sent = []\<rparr>"

datatype sys_event =
    Check | Accept int | Accept_Drop int | Accept_Intr | Accept_Error
  | Command int "char list" bool | Hang_Up int | Client_Check int | Signal signal

inductive sys_step :: "int \<Rightarrow> sys \<Rightarrow> sys_event \<Rightarrow> sys \<Rightarrow> bool" for pid :: int where
  check_on: "listener s = At_Check \<Longrightarrow> daemon_running (shared s) \<Longrightarrow>
     sys_step pid s Check (s\<lparr>listener := In_Accept\<rparr>)"
| check_off: "listener s = At_Check \<Longrightarrow> \<not> daemon_running (shared s) \<Longrightarrow>
     sys_step pid s Check (s\<lparr>listener := Stopped\<rparr>)"
| accept_ok: "listener s = In_Accept \<Longrightarrow> fd \<notin> clients s \<Longrightarrow>
     sys_step pid s (Accept fd) (s\<lparr>listener := At_Check, clients := insert fd (clients s)\<rparr>)"
| accept_drop: "listener s = In_Accept \<Longrightarrow>
     sys_step pid s (Accept_Drop fd) (s\<lparr>listener := At_Check\<rparr>)"
| accept_intr: "listener s = In_Accept \<Longrightarrow> sys_step pid s Accept_Intr (s\<lparr>listener := At_Check\<rparr>)"
| accept_error: "listener s = In_Accept \<Longrightarrow> sys_step pid s Accept_Error (s\<lparr>listener := Stopped\<rparr>)"
| command: "fd \<in> clients s \<Longrightarrow>
     handle_command pid (Some (cstr (received bytes))) (Some []) BUFFER_SIZE (shared s) =
       Inr (result, Some answer, st') \<Longrightarrow>
     sys_step pid s (Command fd bytes ok)
       (s\<lparr>shared := (if ok \<and> result = 1 then st'\<lparr>daemon_running := False\<rparr> else st'),
          clients := (if ok \<and> result \<noteq> 1 then clients s else clients s - {fd}),
          sent := (if ok then sent s @ [(fd, answer)] else sent s)\<rparr>)"
| hang_up: "fd \<in> clients s \<Longrightarrow> sys_step pid s (Hang_Up fd) (s\<lparr>clients := clients s - {fd}\<rparr>)"
| client_check: "fd \<in> clients s \<Longrightarrow> \<not> daemon_running (shared s) \<Longrightarrow>
     sys_step pid s (Client_Check fd) (s\<lparr>clients := clients s - {fd}\<rparr>)"
| signal: "sys_step pid s (Signal sg) (s\<lparr>shared := signal_handler sg (shared s)\<rparr>)"

inductive_cases sys_command: "sys_step pid s (Command fd bytes ok) s'"
inductive_cases sys_check: "sys_step pid s Check s'"

inductive sys_run :: "int \<Rightarrow> sys \<Rightarrow> sys_event list \<Rightarrow> sys \<Rightarrow> bool" for pid :: int where
  finished: "sys_run pid s [] s"
| more: "sys_step pid s e s' \<Longrightarrow> sys_run pid s' es s'' \<Longrightarrow> sys_run pid s (e # es) s''"

inductive_cases sys_run_Nil: "sys_run pid s [] s'"
inductive_cases sys_run_Cons: "sys_run pid s (e # es) s'"

lemma daemon_inv_running [simp]:
  "daemon_inv pid (st\<lparr>daemon_running := b\<rparr>) = daemon_inv pid st"
  by (simp add: daemon_inv_def table_inv_def live_def)

lemma signal_handler_inv: "daemon_inv pid st \<Longrightarrow> daemon_inv pid (signal_handler sg st)"
  by (cases sg) simp_all

lemma sys_step_inv:
  assumes "sys_step pid s e s'" and "daemon_inv pid (shared s)"
  shows "daemon_inv pid (shared s')"
  using assms
proof (induction rule: sys_step.induct)
  case (command fd s bytes result answer st' ok)
  then have "daemon_inv pid st'"
    using handle_command_inv [of pid "shared s" "cstr (received bytes)" BUFFER_SIZE]
    by (simp add: BUFFER_SIZE_def)
  then show ?case by simp
qed (simp_all add: signal_handler_inv)

lemma sys_run_inv:
  "sys_run pid s es s' \<Longrightarrow> daemon_inv pid (shared s) \<Longrightarrow> daemon_inv pid (shared s')"
  by (induction rule: sys_run.induct) (simp_all add: sys_step_inv)

text \<open>Once the daemon is told to stop it is never told to go on.\<close>

lemma handle_command_running:
  assumes "daemon_inv pid st"
    and "handle_command pid (Some (cstr bytes)) (Some []) BUFFER_SIZE st = Inr (r, resp, st')"
  shows "daemon_running st' = daemon_running st"
  using handle_command_total [OF assms(1) c_string_cstr [of bytes], of BUFFER_SIZE "[]"] assms(2)
  by (auto simp: serves_def BUFFER_SIZE_def split: prod.splits)

lemma sys_step_stopping:
  assumes "sys_step pid s e s'" and "daemon_inv pid (shared s)" and "\<not> daemon_running (shared s)"
  shows "\<not> daemon_running (shared s')"
  using assms
proof (induction rule: sys_step.induct)
  case (command fd s bytes result answer st' ok)
  then show ?case using handle_command_running [of pid "shared s" "received bytes"] by auto
next
  case (signal s sg)
  then show ?case by (cases sg) simp_all
qed simp_all

lemma handle_client_cleans_up:
  "handle_client pid fd ts st = Inr (calls, st', ended) \<Longrightarrow>
     count_list calls (Close fd) = (if ended then 1 else 0) \<and>
     count_list calls (Free fd) = (if ended then 1 else 0)"
proof (induction ts arbitrary: st calls)
  case Nil
  then show ?case by auto
next
  case (Cons t ts)
  then show ?case
    by (auto simp: Let_def split: if_splits option.splits sum.splits prod.splits)
qed

definition is_accept :: "sys_event \<Rightarrow> bool" where
  "is_accept e \<longleftrightarrow>
     (case e of Accept _ \<Rightarrow> True | Accept_Drop _ \<Rightarrow> True | Accept_Intr \<Rightarrow> True | Accept_Error \<Rightarrow> True
      | _ \<Rightarrow> False)"

lemma sys_step_listener:
  "sys_step pid s e s' \<Longrightarrow> listener s = In_Accept \<Longrightarrow> \<not> is_accept e \<Longrightarrow> listener s' = In_Accept"
  by (induction rule: sys_step.induct) (simp_all add: is_accept_def)

lemma sys_run_listener:
  "sys_run pid s es s' \<Longrightarrow> listener s = In_Accept \<Longrightarrow> \<forall>e \<in> set es. \<not> is_accept e \<Longrightarrow>
     listener s' = In_Accept"
  by (induction rule: sys_run.induct) (simp_all add: sys_step_listener)

lemma sys_run_stopping:
  "sys_run pid s es s' \<Longrightarrow> daemon_inv pid (shared s) \<Longrightarrow> \<not> daemon_running (shared s) \<Longrightarrow>
     \<not> daemon_running (shared s')"
  by (induction rule: sys_run.induct) (simp_all add: sys_step_inv sys_step_stopping)

lemma exit_command_stops:
  assumes "daemon_inv pid (shared s)" and "sys_step pid s (Command fd bytes True) s'"
    and "parse_request (cstr (received bytes)) = Exit_Daemon"
  shows "\<not> daemon_running (shared s')"
  using assms(2)
proof (rule sys_command)
  fix result answer st'
  assume h: "handle_command pid (Some (cstr (received bytes))) (Some []) BUFFER_SIZE (shared s) =
      Inr (result, Some answer, st')"
    and s': "s' = s\<lparr>shared := if True \<and> result = 1 then st'\<lparr>daemon_running := False\<rparr> else st',
      clients := if True \<and> result \<noteq> 1 then clients s else clients s - {fd},
      sent := if True then sent s @ [(fd, answer)] else sent s\<rparr>"
  have "result = 1"
    using h by (simp add: handle_command_perform BUFFER_SIZE_def assms(3) cmd_exit_daemon_def)
  then show ?thesis by (simp add: s')
qed

lemma kill_monitors_running:
  assumes "\<forall>r \<in> set rs. room_wf pid r" and "0 < pid"
  shows "kill_monitors rs = replicate (length (filter (\<lambda>r. r_status r = ROOM_RUNNING) rs)) (Kill pid)"
  using assms by (induction rs) (auto simp: room_wf_def)

section \<open>Properties\<close>

text \<open>Opening the server socket gives its descriptor exactly when all three calls succeed; when
  one fails after the socket exists, the socket is closed exactly once and the result is -1.\<close>

theorem server_init_no_leak:
  "(fst (server_init sock b l) = (if sock < 0 \<or> b < 0 \<or> l < 0 then -1 else sock)) \<and>
   count_list (snd (server_init sock b l)) (Close sock) = (if 0 \<le> sock \<and> (b < 0 \<or> l < 0) then 1 else 0)"
  by (simp add: server_init_def Let_def)

text \<open>The accept loop gives every descriptor it accepts either to a new thread or closes it, once
  and in the order of arrival, whatever fails in between; and it never returns a negative
  value, so that the error branch behind it in the main function is never taken.\<close>

theorem accepted_are_owned:
  "List.map_filter owned (fst (server_listen ts)) = accepted ts \<and>
   snd (server_listen ts) \<in> {None, Some 0}"
  using server_listen_return [of ts] by (simp only: server_listen_owned)

text \<open>From any state the daemon can reach, a client thread answers the commands it receives one
  for one and in order, each with the answer of the abstract service in the state the commands
  before it left; it goes on until the client leaves, the daemon stops, an answer cannot be
  sent or the command was EXIT, and when it ends it closes its socket and frees its record
  exactly once.\<close>

theorem client_thread_answers:
  "\<exists>st' ended.
     handle_client pid fd ts (run (daemon_step pid) daemon_start lines) =
       Inr (conversation pid fd ts (run (daemon_step pid) daemon_start lines), st', ended) \<and>
     count_list (conversation pid fd ts (run (daemon_step pid) daemon_start lines)) (Close fd) =
       (if ended then 1 else 0) \<and>
     count_list (conversation pid fd ts (run (daemon_step pid) daemon_start lines)) (Free fd) =
       (if ended then 1 else 0)"
proof -
  obtain st' ended where h: "handle_client pid fd ts (run (daemon_step pid) daemon_start lines) =
      Inr (conversation pid fd ts (run (daemon_step pid) daemon_start lines), st', ended)"
    using handle_client_conversation [OF dm.inv_reached] by blast
  with handle_client_cleans_up [OF h] show ?thesis by blast
qed

text \<open>However the accept loop, any number of clients and signals interleave, the shared room
  table stays well formed, the mutex is free between commands, and a daemon that was told to
  stop is never running again.\<close>

theorem interleavings_keep_table:
  assumes "sys_run pid sys_start es s" and "sys_run pid s fs s'"
  shows "daemon_inv pid (shared s') \<and> (\<not> daemon_running (shared s) \<longrightarrow> \<not> daemon_running (shared s'))"
proof -
  have inv: "daemon_inv pid (shared s)"
    using sys_run_inv [OF assms(1)] daemon_inv_start by (simp add: sys_start_def)
  then show ?thesis using sys_run_inv [OF assms(2) inv] sys_run_stopping [OF assms(2) inv] by blast
qed

text \<open>The example run: a client connects and sends EXIT while the listener waits again.\<close>

definition example_waiting :: sys where
  "example_waiting = sys_start\<lparr>listener := In_Accept, clients := {5}\<rparr>"

definition example_stopped :: sys where
  "example_stopped =
     \<lparr>shared = daemon_start\<lparr>daemon_running := False\<rparr>, listener = In_Accept, clients = {},
      sent = [(5, ''OK Daemon shutting down'')]\<rparr>"

lemma example_run: "sys_run pid sys_start [Check, Accept 5, Check] example_waiting"
proof -
  have "sys_step pid sys_start Check (sys_start\<lparr>listener := In_Accept\<rparr>)"
    by (rule check_on) (simp_all add: sys_start_def daemon_start_def)
  moreover have "sys_step pid (sys_start\<lparr>listener := In_Accept\<rparr>) (Accept 5)
      (sys_start\<lparr>clients := {5}\<rparr>)"
    using accept_ok [of "sys_start\<lparr>listener := In_Accept\<rparr>" 5 pid] by (simp add: sys_start_def)
  moreover have "sys_step pid (sys_start\<lparr>clients := {5}\<rparr>) Check example_waiting"
    using check_on [of "sys_start\<lparr>clients := {5}\<rparr>" pid]
    by (simp add: sys_start_def example_waiting_def daemon_start_def)
  ultimately show ?thesis by (blast intro: more finished)
qed

lemma example_exit: "sys_step pid example_waiting (Command 5 ''EXIT'' True) example_stopped"
proof -
  have "parse_request (cstr (received ''EXIT'')) = Exit_Daemon" by code_simp
  then have "handle_command pid (Some (cstr (received ''EXIT''))) (Some []) BUFFER_SIZE
      (shared example_waiting) = Inr (1, Some ''OK Daemon shutting down'', daemon_start)"
    by (simp add: handle_command_perform BUFFER_SIZE_def cmd_exit_daemon_def reply_def
        snprintf_c_def example_waiting_def sys_start_def)
  from command [OF _ this, of 5 True] show ?thesis
    by (simp add: example_waiting_def example_stopped_def sys_start_def)
qed

theorem interleavings_keep_table_witness:
  "daemon_inv 7 (shared example_stopped) \<and> \<not> daemon_running (shared example_stopped)"
  using interleavings_keep_table [OF example_run [of 7] more [OF example_exit finished]]
  by (simp add: example_stopped_def)

text \<open>C40. A daemon that is told to stop by the command EXIT while its listener waits for a
  connection stops serving, but does not end: whatever its clients and signals do, the
  listener waits until the next connection arrives or the wait is interrupted.\<close>

theorem exit_waits_for_a_connection:
  assumes "sys_run pid sys_start es s" and "listener s = In_Accept"
    and "sys_step pid s (Command fd bytes True) s'"
    and "parse_request (cstr (received bytes)) = Exit_Daemon"
    and "sys_run pid s' fs s''" and "\<forall>e \<in> set fs. \<not> is_accept e"
  shows "\<not> daemon_running (shared s'') \<and> listener s'' = In_Accept"
proof -
  have inv: "daemon_inv pid (shared s)"
    using sys_run_inv [OF assms(1)] daemon_inv_start by (simp add: sys_start_def)
  have "listener s' = In_Accept" by (rule sys_step_listener [OF assms(3,2)]) (simp add: is_accept_def)
  moreover have "\<not> daemon_running (shared s')" by (rule exit_command_stops [OF inv assms(3,4)])
  ultimately show ?thesis
    using sys_run_listener [OF assms(5) _ assms(6)] sys_run_stopping [OF assms(5) sys_step_inv [OF assms(3) inv]]
    by blast
qed

theorem exit_waits_for_a_connection_witness:
  "\<not> daemon_running (shared example_stopped) \<and> listener example_stopped = In_Accept"
proof (rule exit_waits_for_a_connection [OF example_run [of 7] _ example_exit _ finished])
  show "listener example_waiting = In_Accept" by (simp add: example_waiting_def)
  show "parse_request (cstr (received ''EXIT'')) = Exit_Daemon" by code_simp
qed simp

text \<open>When it cleans up, the daemon sends SIGTERM once for each room that is running, and every
  time to its own process, since that is the process it recorded when the room was started.\<close>

theorem cleanup_signals_itself:
  assumes "daemon_inv pid st" and "0 < pid"
  shows "cleanup_daemon st =
     Inr (replicate (length (filter (\<lambda>r. r_status r = ROOM_RUNNING) (live st))) (Kill pid), st)"
proof -
  have free: "depth (rooms_mutex st) = 0" and wf: "\<forall>r \<in> set (live st). room_wf pid r"
    using assms(1) by (simp_all add: daemon_inv_def)
  show ?thesis
    using kill_monitors_running [OF wf assms(2)]
    by (simp add: cleanup_daemon_def lock_rooms_free [OF free] live_def unlock_rooms_def
        mutex_unlock_one [OF free])
qed

theorem cleanup_signals_itself_witness:
  "cleanup_daemon (run (daemon_step 7) daemon_start [''CREATE a 5'', ''CREATE b 6'', ''START a'']) =
     Inr ([Kill 7], run (daemon_step 7) daemon_start [''CREATE a 5'', ''CREATE b 6'', ''START a''])"
proof -
  have "length (filter (\<lambda>r. r_status r = ROOM_RUNNING)
      (live (run (daemon_step 7) daemon_start [''CREATE a 5'', ''CREATE b 6'', ''START a'']))) = 1"
    by code_simp
  then show ?thesis
    using cleanup_signals_itself [OF dm.inv_reached, of 7 "[''CREATE a 5'', ''CREATE b 6'', ''START a'']"]
    by simp
qed

end
