(* ===== verification/DaemonService.thy ===== *)
theory DaemonService
  imports DaemonServer
begin

text \<open>
  What the socket daemon promises to all its clients together: one list of rooms in the order of their
  creation, on which commands are answered one after the other (\<open>list_turn\<close>). A command that
  \<open>handle_command\<close> handles undisturbed (\<open>command_turn\<close>) is answered as the list answers it, and leaves
  the table with the rooms of the list (simulation \<open>ds\<close>). \<open>DaemonThreads\<close> shows that threads which
  disturb each other answer so too.
\<close>

section \<open>The service on a list of rooms\<close>

definition find_name :: "string \<Rightarrow> room list \<Rightarrow> room option" where
  "find_name name rs = find (\<lambda>r. r_name r = name) rs"

definition change_name :: "string \<Rightarrow> (room \<Rightarrow> room) \<Rightarrow> room list \<Rightarrow> room list" where
  "change_name name f rs = map (\<lambda>r. if r_name r = name then f r else r) rs"

definition listing :: "room list \<Rightarrow> string" where
  "listing rs = rooms_header @ (if rs = [] then ''No rooms created'' else concat (map room_line rs))"

fun serve_rooms :: "int \<Rightarrow> room list \<Rightarrow> request \<Rightarrow> (int \<times> string) \<times> room list" where
  "serve_rooms pid rs (Bad msg) = ((0, msg), rs)"
| "serve_rooms pid rs (Create_Room name sz) =
     (if sz \<le> 0 \<or> sz > 10000 then ((0, ''ERROR Invalid room size (must be 1-10000)''), rs)
      else if find_name name rs \<noteq> None then ((0, ''ERROR Room '' @ quoted name @ '' already exists''), rs)
      else if length rs \<ge> MAX_ROOMS then ((0, ''ERROR Failed to create room '' @ quoted name), rs)
      else ((0, ''OK Room '' @ quoted name @ '' created with size '' @ show_int sz), rs @ [new_room name sz]))"
| "serve_rooms pid rs (Start_Room name) =
     (case find_name name rs of
        None \<Rightarrow> ((0, not_found name), rs)
      | Some r \<Rightarrow>
          if r_status r = ROOM_RUNNING then ((0, ''ERROR Room '' @ quoted name @ '' is already running''), rs)
          else ((0, ''OK Room '' @ quoted name @ '' monitoring started''), change_name name (started pid) rs))"
| "serve_rooms pid rs (Stop_Room name) =
     (case find_name name rs of
        None \<Rightarrow> ((0, not_found name), rs)
      | Some r \<Rightarrow>
          if r_status r \<noteq> ROOM_RUNNING then ((0, ''ERROR Room '' @ quoted name @ '' is not running''), rs)
          else ((0, ''OK Room '' @ quoted name @ '' monitoring stopped''), change_name name stopped rs))"
| "serve_rooms pid rs (Show_Room name) =
     ((0, case find_name name rs of None \<Rightarrow> not_found name | Some r \<Rightarrow> describe r), rs)"
| "serve_rooms pid rs Show_All = ((0, listing rs), rs)"
| "serve_rooms pid rs Exit_Daemon = ((1, ''OK Daemon shutting down''), rs)"

text \<open>One command as it is received, and its answer as it is sent.\<close>

definition list_turn :: "int \<Rightarrow> room list \<Rightarrow> char list \<Rightarrow> (int \<times> string) \<times> room list" where
  "list_turn pid rs bytes =
     (case serve_rooms pid rs (parse_request (cstr (received bytes))) of
        ((r, text), rs') \<Rightarrow> ((r, take (BUFFER_SIZE - 1) text), rs'))"

definition command_turn :: "int \<Rightarrow> daemon \<Rightarrow> char list \<Rightarrow> (int \<times> string) \<times> daemon" where
  "command_turn pid st bytes =
     (case handle_command pid (Some (cstr (received bytes))) (Some []) BUFFER_SIZE st of
        Inr (r, Some text, st') \<Rightarrow> ((r, text), st')
      | Inr (r, None, st') \<Rightarrow> ((r, []), st')
      | Inl _ \<Rightarrow> ((-1, []), st))"

section \<open>The table holds the list\<close>

lemma find_name_lookup:
  assumes "daemon_inv pid st"
  shows "find_name name (live st) = lookup st name"
proof -
  have inv: "table_inv st" and active: "\<forall>r \<in> set (live st). r_active r"
    using assms by (auto simp: daemon_inv_def room_wf_def)
  show ?thesis
  proof (cases "find_name name (live st)")
    case None
    then have "\<forall>r \<in> set (live st). r_name r \<noteq> name" by (simp add: find_name_def find_None_iff)
    then have "lookup st name \<noteq> Some r" for r by (simp add: lookup_Some [OF inv])
    then show ?thesis using None by (cases "lookup st name") auto
  next
    case (Some r)
    then have "r \<in> set (live st)" "r_name r = name" by (auto simp: find_name_def find_Some_iff)
    then have "lookup st name = Some r" using active by (simp add: lookup_Some [OF inv])
    then show ?thesis using Some by simp
  qed
qed

lemma change_name_set_room:
  assumes "daemon_inv pid st" and "find_room st name = Some i"
  shows "live (set_room i (f (rooms st ! i)) st) = change_name name f (live st)"
proof -
  have inv: "table_inv st" using assms(1) by (simp add: daemon_inv_def)
  note i = live_set_room [OF inv assms(2)] find_room_Some [OF assms(2)]
  have len: "length (live st) \<le> room_count st" by (simp add: live_def)
  have "r_name (live st ! j) = name \<longleftrightarrow> j = i" if "j < length (live st)" for j
  proof -
    have "live st ! j \<in> set (live st)" using that by simp
    then have "r_active (live st ! j)" using assms(1) by (auto simp: daemon_inv_def room_wf_def)
    then show ?thesis
      using that len i find_room_unique [OF inv, of name j] assms(2) by (auto simp: live_def)
  qed
  then show ?thesis
    unfolding i(1) change_name_def by (intro nth_equalityI) (auto simp: nth_list_update i(3))
qed

lemma listing_room_list:
  assumes "daemon_inv pid st"
  shows "room_list st = listing (live st)"
proof -
  have "filter r_active (live st) = live st"
    using assms by (auto simp: daemon_inv_def room_wf_def intro: filter_True)
  moreover have "room_count st = 0 \<longleftrightarrow> live st = []"
    using assms by (auto simp: live_def daemon_inv_def table_inv_def MAX_ROOMS_def)
  ultimately show ?thesis by (simp add: room_list_def listing_def flip: live_def)
qed

lemma live_length: "daemon_inv pid st \<Longrightarrow> length (live st) = room_count st"
  by (simp add: live_def daemon_inv_def table_inv_def)

text \<open>The operation a request names does to the table what the service does to the list.\<close>

definition list_result :: "cmd_result \<Rightarrow> (int \<times> string) \<times> room list \<Rightarrow> bool" where
  "list_result res a \<longleftrightarrow>
     (\<exists>st'. res = Inr (fst (fst a), Some (take (BUFFER_SIZE - 1) (snd (fst a))), st') \<and> live st' = snd a)"

lemma reply_list_result: "live st' = rs \<Longrightarrow> list_result (Inr (r, reply (Some buf) BUFFER_SIZE msg, st')) ((r, msg), rs)"
  by (simp add: list_result_def reply_def snprintf_c_def BUFFER_SIZE_def)

lemma perform_list:
  assumes "daemon_inv pid st" and "request_ok q"
  shows "list_result (perform pid q buf BUFFER_SIZE st) (serve_rooms pid (live st) q)"
proof -
  have inv: "table_inv st" and free: "depth (rooms_mutex st) = 0" using assms(1) by (simp_all add: daemon_inv_def)
  note name = find_name_lookup [OF assms(1)]
  show ?thesis
  proof (cases q)
    case (Create_Room n sz)
    then have fits: "name_fits n" using assms(2) by (simp add: request_ok_def)
    have "live st' = live st @ [new_room n sz]" if "add_room n sz st = (0, st')" for st'
      by (rule live_add_room [OF inv fits that])
    then show ?thesis
      using live_length [OF assms(1)]
      by (cases "find_room st n")
        (auto simp: Create_Room cmd_create_eq [OF free] name add_room_eq [OF fits] intro!: reply_list_result)
  next
    case (Start_Room n)
    then show ?thesis
      using change_name_set_room [OF assms(1), of n _ "started pid"]
      by (cases "find_room st n") (auto simp: cmd_start_eq [OF free] name intro!: reply_list_result)
  next
    case (Stop_Room n)
    then show ?thesis
      using change_name_set_room [OF assms(1), of n _ stopped]
      by (cases "find_room st n") (auto simp: cmd_stop_eq [OF free] name intro!: reply_list_result)
  next
    case (Show_Room n)
    then show ?thesis
      by (cases "find_room st n") (auto simp: cmd_show_eq [OF free] name intro!: reply_list_result)
  next
    case Show_All
    then show ?thesis
      using listing_room_list [OF assms(1)] by (simp add: list_rooms_eq [OF _ _ free] list_result_def BUFFER_SIZE_def)
  qed (simp_all add: reply_list_result cmd_exit_daemon_def)
qed

lemma command_turn_list:
  assumes "daemon_inv pid st"
  shows "fst (command_turn pid st bytes) = fst (list_turn pid (live st) bytes)"
    and "live (snd (command_turn pid st bytes)) = snd (list_turn pid (live st) bytes)"
    and "daemon_inv pid (snd (command_turn pid st bytes))"
    and "handle_command pid (Some (cstr (received bytes))) (Some []) BUFFER_SIZE st =
      Inr (fst (fst (command_turn pid st bytes)), Some (snd (fst (command_turn pid st bytes))), snd (command_turn pid st bytes))"
proof -
  let ?line = "cstr (received bytes)"
  have ok: "request_ok (parse_request ?line)" by (rule parse_request_ok [OF c_string_cstr])
  obtain r msg rs' where served: "serve_rooms pid (live st) (parse_request ?line) = ((r, msg), rs')"
    by (metis surj_pair)
  obtain st' where handled: "handle_command pid (Some ?line) (Some []) BUFFER_SIZE st =
      Inr (r, Some (take (BUFFER_SIZE - 1) msg), st')" "live st' = rs'"
    using perform_list [OF assms ok, of "[]"] by (auto simp: list_result_def served handle_command_perform BUFFER_SIZE_def)
  show "fst (command_turn pid st bytes) = fst (list_turn pid (live st) bytes)"
    "live (snd (command_turn pid st bytes)) = snd (list_turn pid (live st) bytes)"
    "handle_command pid (Some ?line) (Some []) BUFFER_SIZE st =
      Inr (fst (fst (command_turn pid st bytes)), Some (snd (fst (command_turn pid st bytes))), snd (command_turn pid st bytes))"
    using handled by (simp_all add: command_turn_def list_turn_def served)
  show "daemon_inv pid (snd (command_turn pid st bytes))"
  proof -
    have "daemon_inv pid st'" by (rule handle_command_inv [OF assms c_string_cstr _ _ handled(1)]) (simp_all add: BUFFER_SIZE_def)
    then show ?thesis by (simp add: command_turn_def handled(1))
  qed
qed

interpretation ds: simulation "list_turn pid" "command_turn pid" "\<lambda>rs st. daemon_inv pid st \<and> live st = rs" for pid
  using command_turn_list by unfold_locales blast+

end
