(* ===== verification/CriticalSections.thy ===== *)
theory CriticalSections
  imports Prelude
begin

text \<open>
  What the models of threads share: runs of a system that takes one event at a time (\<open>run_events\<close>), and
  critical sections. A thread in its critical section takes the steps \<open>turn\<close> on what the mutex guards
  until \<open>at_end\<close> says that it is at the unlock; \<open>completes\<close> says where this leads when nobody
  interferes. The locale \<open>critical_section\<close> is interpreted for the room table of the socket daemon
  (\<open>DaemonThreads\<close>) and for the logger (\<open>LoggerThreads\<close>).
\<close>

section \<open>Runs\<close>

fun run_events :: "('s \<Rightarrow> 'e \<Rightarrow> 's option) \<Rightarrow> 's \<Rightarrow> 'e list \<Rightarrow> 's option" where
  "run_events step s [] = Some s"
| "run_events step s (e # es) = Option.bind (step s e) (\<lambda>s'. run_events step s' es)"

lemma run_events_append:
  "run_events step s (es @ es') = Option.bind (run_events step s es) (\<lambda>s'. run_events step s' es')"
  by (induction es arbitrary: s) (auto split: Option.bind_split)

text \<open>A property of the events so far and the state they lead to.\<close>

lemma run_events_inv:
  assumes "I [] s"
    and "\<And>es s' e s''. I es s' \<Longrightarrow> step s' e = Some s'' \<Longrightarrow> I (es @ [e]) s''"
    and "run_events step s es = Some s'"
  shows "I es s'"
  using assms(3)
proof (induction es arbitrary: s' rule: rev_induct)
  case Nil
  then show ?case using assms(1) by simp
next
  case (snoc e es)
  then obtain s'' where "run_events step s es = Some s''" "step s'' e = Some s'"
    by (auto simp: run_events_append bind_eq_Some_conv split: Option.bind_splits)
  then show ?case using snoc.IH assms(2) by blast
qed

section \<open>Critical sections\<close>

inductive completes ::
  "('p \<Rightarrow> 's \<Rightarrow> ('p \<times> 's) option) \<Rightarrow> ('p \<Rightarrow> 'r option) \<Rightarrow> nat \<Rightarrow> 'p \<Rightarrow> 's \<Rightarrow> 'r \<Rightarrow> 's \<Rightarrow> bool"
  for turn at_end where
  ends: "at_end p = Some r \<Longrightarrow> completes turn at_end 0 p s r s"
| goes_on: "turn p s = Some (p', s') \<Longrightarrow> completes turn at_end n p' s' r s'' \<Longrightarrow>
     completes turn at_end (Suc n) p s r s''"

locale critical_section =
  fixes turn :: "'p \<Rightarrow> 's \<Rightarrow> ('p \<times> 's) option" and at_end :: "'p \<Rightarrow> 'r option"
  assumes stops: "at_end p = Some r \<Longrightarrow> turn p s = None"
begin

lemma completes_turn:
  assumes "completes turn at_end n p s r s''" and "turn p s = Some (p', s')"
  shows "\<exists>m. n = Suc m \<and> completes turn at_end m p' s' r s''"
  using assms by cases (auto simp: stops)

lemma completes_at_end:
  assumes "at_end p = Some r"
  shows "completes turn at_end n p s r' s' \<longleftrightarrow> n = 0 \<and> r' = r \<and> s' = s"
  using assms by (auto simp: stops intro: ends elim: completes.cases)

text \<open>What the steps do not look at can change meanwhile.\<close>

lemma completes_change:
  assumes "\<And>p s p' s'. turn p s = Some (p', s') \<Longrightarrow> turn p (f s) = Some (p', f s')"
    and "completes turn at_end n p s r s'"
  shows "completes turn at_end n p (f s) r (f s')"
  using assms(2) by induction (auto intro: ends goes_on assms(1))

lemma completes_unique:
  assumes "completes turn at_end n p s r s'" and "completes turn at_end m p s r' s''"
  shows "n = m \<and> r = r' \<and> s' = s''"
  using assms
proof (induction arbitrary: m)
  case (goes_on p s p' s1 n r s')
  then show ?case using completes_turn [OF goes_on.prems goes_on.hyps(1)] by auto
qed (auto simp: completes_at_end)

end

end
