(* ===== verification/DaemonThreads.thy ===== *)
theory DaemonThreads
  imports DaemonService CriticalSections
begin

text \<open>
  The threads of the socket daemon at the grain of its mutex: \<open>main\<close> of
  \<^verbatim>\<open>03-communication/daemon/daemon_main.c\<close> with \<open>server_listen\<close> and \<open>cleanup_daemon\<close>, and
  \<open>handle_client\<close> of \<^verbatim>\<open>socket_server.c\<close> with the operations of \<^verbatim>\<open>command_handler.c\<close>. A thread is at
  a program point (\<open>main_phase\<close>, \<open>phase\<close>, with what the thread has on its stack); between
  \<open>pthread_mutex_lock\<close> and \<open>pthread_mutex_unlock\<close> the search of \<open>find_room\<close>, every turn of the loop over
  the rooms and every write to a field are steps of their own (\<open>section_turn\<close>), and steps of other
  threads come in between. Who holds \<open>rooms_mutex\<close> is \<open>th_owner\<close>; the globals' own view of the mutex
  stays free.

  The program points outside the critical section do not touch the table, so all formatting of an answer
  that the code does after \<open>pthread_mutex_unlock\<close> from arguments of the call is done with the decision.
\<close>

section \<open>The critical sections, access by access\<close>

text \<open>Writes to the array: the fields of the slot at \<open>room_count\<close> (\<open>add_room\<close>), and of a room found.\<close>

datatype room_write =
    New_Name string | New_Size int | New_Status | New_Pid | New_Active | Count_Up
  | Set_Status nat room_status | Set_Pid nat int | Drop_Pid nat

definition change_room :: "nat \<Rightarrow> (room \<Rightarrow> room) \<Rightarrow> daemon \<Rightarrow> daemon" where
  "change_room i f st = set_room i (f (rooms st ! i)) st"

fun write_room :: "room_write \<Rightarrow> daemon \<Rightarrow> daemon" where
  "write_room (New_Name name) st =
     change_room (room_count st) (\<lambda>r. r\<lparr>r_name := strncpy_c (MAX_ROOM_NAME - 1) name\<rparr>) st"
| "write_room (New_Size sz) st = change_room (room_count st) (\<lambda>r. r\<lparr>r_size := sz\<rparr>) st"
| "write_room New_Status st = change_room (room_count st) (\<lambda>r. r\<lparr>r_status := ROOM_CREATED\<rparr>) st"
| "write_room New_Pid st = change_room (room_count st) (\<lambda>r. r\<lparr>r_pid := 0\<rparr>) st"
| "write_room New_Active st = change_room (room_count st) (\<lambda>r. r\<lparr>r_active := True\<rparr>) st"
| "write_room Count_Up st = st\<lparr>room_count := Suc (room_count st)\<rparr>"
| "write_room (Set_Status i x) st = change_room i (\<lambda>r. r\<lparr>r_status := x\<rparr>) st"
| "write_room (Set_Pid i pid) st = change_room i (\<lambda>r. r\<lparr>r_pid := pid\<rparr>) st"
| "write_room (Drop_Pid i) st = change_room i (\<lambda>r. if r_pid r > 0 then r\<lparr>r_pid := 0\<rparr> else r) st"

text \<open>What an operation does once \<open>find_room\<close> has answered: its writes, its result and its answer.\<close>

fun decide :: "int \<Rightarrow> request \<Rightarrow> nat option \<Rightarrow> daemon \<Rightarrow> room_write list \<times> int \<times> string" where
  "decide pid (Create_Room name sz) found st =
     (if found \<noteq> None then ([], 0, ''ERROR Room '' @ quoted name @ '' already exists'')
      else if room_count st \<ge> MAX_ROOMS then ([], 0, ''ERROR Failed to create room '' @ quoted name)
      else ([New_Name name, New_Size sz, New_Status, New_Pid, New_Active, Count_Up], 0,
            ''OK Room '' @ quoted name @ '' created with size '' @ show_int sz))"
| "decide pid (Start_Room name) found st =
     (case found of
        None \<Rightarrow> ([], 0, not_found name)
      | Some i \<Rightarrow>
          if r_status (rooms st ! i) = ROOM_RUNNING
          then ([], 0, ''ERROR Room '' @ quoted name @ '' is already running'')
          else ([Set_Status i ROOM_RUNNING, Set_Pid i pid], 0,
                ''OK Room '' @ quoted name @ '' monitoring started''))"
| "decide pid (Stop_Room name) found st =
     (case found of
        None \<Rightarrow> ([], 0, not_found name)
      | Some i \<Rightarrow>
          if r_status (rooms st ! i) \<noteq> ROOM_RUNNING
          then ([], 0, ''ERROR Room '' @ quoted name @ '' is not running'')
          else ([Set_Status i ROOM_STOPPED, Drop_Pid i], 0,
                ''OK Room '' @ quoted name @ '' monitoring stopped''))"
| "decide pid (Show_Room name) found st =
     ([], 0, case found of None \<Rightarrow> not_found name | Some i \<Rightarrow> describe (rooms st ! i))"
| "decide pid q found st = ([], 0, [])"

fun name_of :: "request \<Rightarrow> string option" where
  "name_of (Create_Room name sz) = Some name"
| "name_of (Start_Room name) = Some name"
| "name_of (Stop_Room name) = Some name"
| "name_of (Show_Room name) = Some name"
| "name_of q = None"

text \<open>Where a client thread is.\<close>

datatype phase =
    Gone                                \<comment> \<open>no such thread, or its descriptor is closed\<close>
  | Head                                \<comment> \<open>at the head of the loop\<close>
  | Receiving                           \<comment> \<open>in \<open>recv\<close>\<close>
  | Wanting "char list"                 \<comment> \<open>at the lock, with the command in its buffer\<close>
  | Locked request                      \<comment> \<open>has the mutex\<close>
  | Found request "nat option"          \<comment> \<open>after \<open>find_room\<close>\<close>
  | Listing nat string nat              \<comment> \<open>in the loop of \<open>list_rooms\<close>: index, buffer, offset\<close>
  | Writing "room_write list" int string \<comment> \<open>writes to come, then \<open>unlock\<close>; result and answer\<close>
  | Sending int string                  \<comment> \<open>at \<open>send\<close>\<close>
  | Stopping                            \<comment> \<open>has answered \<open>EXIT\<close>\<close>

abbreviation cut :: "string \<Rightarrow> string" where
  "cut text \<equiv> snprintf_c [] BUFFER_SIZE text"

text \<open>One step of the thread that has the mutex; \<open>None\<close> when it is at the unlock, or outside.\<close>

fun section_turn :: "int \<Rightarrow> phase \<Rightarrow> daemon \<Rightarrow> (phase \<times> daemon) option" where
  "section_turn pid (Locked q) st =
     (if q = Show_All then
        if room_count st = 0 then
          (case snprintf_at rooms_header BUFFER_SIZE 10 ''No rooms created'' of
             Inl _ \<Rightarrow> None | Inr buf \<Rightarrow> Some (Writing [] 0 buf, st))
        else Some (Listing 0 rooms_header 10, st)
      else (case name_of q of None \<Rightarrow> None | Some name \<Rightarrow> Some (Found q (find_room st name), st)))"
| "section_turn pid (Found q found) st =
     (case decide pid q found st of (ws, r, text) \<Rightarrow> Some (Writing ws r (cut text), st))"
| "section_turn pid (Listing i buf off) st =
     (if i < room_count st \<and> int off < int BUFFER_SIZE - 1 then
        if r_active (rooms st ! i) then
          (case snprintf_at buf BUFFER_SIZE off (room_line (rooms st ! i)) of
             Inl _ \<Rightarrow> None
           | Inr buf' \<Rightarrow> Some (Listing (Suc i) buf' (off + length (room_line (rooms st ! i))), st))
        else Some (Listing (Suc i) buf off, st)
      else Some (Writing [] 0 buf, st))"
| "section_turn pid (Writing (w # ws) r text) st = Some (Writing ws r text, write_room w st)"
| "section_turn pid p st = None"

text \<open>What a thread does with the command it received, up to the lock or to its answer.\<close>

definition command_in :: "char list \<Rightarrow> request" where
  "command_in bytes = parse_request (cstr (received bytes))"

definition begin_command :: "char list \<Rightarrow> phase" where
  "begin_command bytes =
     (case command_in bytes of
        Bad msg \<Rightarrow> Sending 0 (cut msg)
      | Exit_Daemon \<Rightarrow> Sending 1 (cut ''OK Daemon shutting down'')
      | Create_Room name sz \<Rightarrow>
          if sz \<le> 0 \<or> sz > 10000 then Sending 0 (cut ''ERROR Invalid room size (must be 1-10000)'')
          else Wanting bytes
      | _ \<Rightarrow> Wanting bytes)"

section \<open>All threads\<close>

datatype main_phase =
    Main_Check | Main_Accept | Main_Cleanup | Main_Kill | Main_Destroy | Main_Leave | Main_Gone

datatype thread = Main_Thread | Client_Thread int

record threads =
  th_globals :: daemon
  th_owner :: "thread option"
  th_main :: main_phase
  th_phase :: "int \<Rightarrow> phase"
  th_sends :: "(int \<times> (int \<times> string) \<times> bool) list"
  th_kills :: "sys_call list"

definition threads_start :: threads where
  "threads_start = \<lparr>th_globals = daemon_start, th_owner = None, th_main = Main_Check,
     th_phase = (\<lambda>_. Gone), th_sends = [], th_kills = []\<rparr>"

abbreviation go :: "int \<Rightarrow> phase \<Rightarrow> threads \<Rightarrow> threads" where
  "go fd p s \<equiv> s\<lparr>th_phase := (th_phase s)(fd := p)\<rparr>"

text \<open>The mutex is destroyed at the end of \<open>cleanup_daemon\<close>; until \<open>main\<close> returns, the other threads go
  on. What locking or unlocking it does then is undefined: there is no such step.\<close>

definition mutex_destroyed :: "threads \<Rightarrow> bool" where
  "mutex_destroyed s \<longleftrightarrow> th_main s = Main_Leave \<or> th_main s = Main_Gone"

datatype thread_event =
    M_Check | M_Accept int | M_Drop | M_Fail | M_Lock | M_Unlock | M_Destroy | M_Return
  | C_Check int | C_Recv int "char list" | C_Hang_Up int | C_Lock int "char list" | C_Turn int
  | C_Unlock int | C_Send int bool | C_Stop int | A_Signal signal

inductive thread_step :: "int \<Rightarrow> threads \<Rightarrow> thread_event \<Rightarrow> threads \<Rightarrow> bool" for pid :: int where
  m_on: "th_main s = Main_Check \<Longrightarrow> daemon_running (th_globals s) \<Longrightarrow>
     thread_step pid s M_Check (s\<lparr>th_main := Main_Accept\<rparr>)"
| m_off: "th_main s = Main_Check \<Longrightarrow> \<not> daemon_running (th_globals s) \<Longrightarrow>
     thread_step pid s M_Check (s\<lparr>th_main := Main_Cleanup\<rparr>)"
| m_accept: "th_main s = Main_Accept \<Longrightarrow> th_phase s fd = Gone \<Longrightarrow>
     thread_step pid s (M_Accept fd) ((go fd Head s)\<lparr>th_main := Main_Check\<rparr>)"
| m_drop: "th_main s = Main_Accept \<Longrightarrow> thread_step pid s M_Drop (s\<lparr>th_main := Main_Check\<rparr>)"
| m_fail: "th_main s = Main_Accept \<Longrightarrow> thread_step pid s M_Fail (s\<lparr>th_main := Main_Cleanup\<rparr>)"
| m_lock: "th_main s = Main_Cleanup \<Longrightarrow> th_owner s = None \<Longrightarrow>
     thread_step pid s M_Lock (s\<lparr>th_main := Main_Kill, th_owner := Some Main_Thread\<rparr>)"
| m_unlock: "th_main s = Main_Kill \<Longrightarrow>
     thread_step pid s M_Unlock (s\<lparr>th_main := Main_Destroy, th_owner := None,
       th_kills := kill_monitors (live (th_globals s))\<rparr>)"
| m_destroy: "th_main s = Main_Destroy \<Longrightarrow> thread_step pid s M_Destroy (s\<lparr>th_main := Main_Leave\<rparr>)"
| m_return: "th_main s = Main_Leave \<Longrightarrow> thread_step pid s M_Return (s\<lparr>th_main := Main_Gone\<rparr>)"
| c_on: "th_main s \<noteq> Main_Gone \<Longrightarrow> th_phase s fd = Head \<Longrightarrow> daemon_running (th_globals s) \<Longrightarrow>
     thread_step pid s (C_Check fd) (go fd Receiving s)"
| c_off: "th_main s \<noteq> Main_Gone \<Longrightarrow> th_phase s fd = Head \<Longrightarrow> \<not> daemon_running (th_globals s) \<Longrightarrow>
     thread_step pid s (C_Check fd) (go fd Gone s)"
| c_recv: "th_main s \<noteq> Main_Gone \<Longrightarrow> th_phase s fd = Receiving \<Longrightarrow> bytes \<noteq> [] \<Longrightarrow>
     thread_step pid s (C_Recv fd bytes) (go fd (begin_command bytes) s)"
| c_hang_up: "th_main s \<noteq> Main_Gone \<Longrightarrow> th_phase s fd = Receiving \<Longrightarrow>
     thread_step pid s (C_Hang_Up fd) (go fd Gone s)"
| c_lock: "\<not> mutex_destroyed s \<Longrightarrow> th_phase s fd = Wanting bytes \<Longrightarrow> th_owner s = None \<Longrightarrow>
     thread_step pid s (C_Lock fd bytes)
       ((go fd (Locked (command_in bytes)) s)\<lparr>th_owner := Some (Client_Thread fd)\<rparr>)"
| c_turn: "th_main s \<noteq> Main_Gone \<Longrightarrow> section_turn pid (th_phase s fd) (th_globals s) = Some (p, st) \<Longrightarrow>
     thread_step pid s (C_Turn fd) ((go fd p s)\<lparr>th_globals := st\<rparr>)"
| c_unlock: "\<not> mutex_destroyed s \<Longrightarrow> th_phase s fd = Writing [] r text \<Longrightarrow>
     thread_step pid s (C_Unlock fd) ((go fd (Sending r text) s)\<lparr>th_owner := None\<rparr>)"
| c_send: "th_main s \<noteq> Main_Gone \<Longrightarrow> th_phase s fd = Sending r text \<Longrightarrow>
     thread_step pid s (C_Send fd ok)
       ((go fd (if \<not> ok then Gone else if r = 1 then Stopping else Head) s)
          \<lparr>th_sends := th_sends s @ [(fd, (r, text), ok)]\<rparr>)"
| c_stop: "th_main s \<noteq> Main_Gone \<Longrightarrow> th_phase s fd = Stopping \<Longrightarrow>
     thread_step pid s (C_Stop fd)
       ((go fd Gone s)\<lparr>th_globals := (th_globals s)\<lparr>daemon_running := False\<rparr>\<rparr>)"
| a_signal: "th_main s \<noteq> Main_Gone \<Longrightarrow>
     thread_step pid s (A_Signal sg) (s\<lparr>th_globals := signal_handler sg (th_globals s)\<rparr>)"

inductive threads_run :: "int \<Rightarrow> threads \<Rightarrow> thread_event list \<Rightarrow> threads \<Rightarrow> bool"
  for pid :: int and s :: threads where
  stay: "threads_run pid s [] s"
| onward: "threads_run pid s es s' \<Longrightarrow> thread_step pid s' e s'' \<Longrightarrow> threads_run pid s (es @ [e]) s''"

section \<open>A critical section run to its end\<close>

text \<open>From a point inside its critical section, undisturbed, a thread reaches the unlock in some number of
  steps, with a result and an answer, and leaves the table in some state.\<close>

fun unlocking :: "phase \<Rightarrow> (int \<times> string) option" where
  "unlocking (Writing [] r text) = Some (r, text)"
| "unlocking _ = None"

interpretation rooms: critical_section "section_turn pid" unlocking for pid
proof
  show "unlocking p = Some r \<Longrightarrow> section_turn pid p s = None" for p r s
    by (cases p rule: unlocking.cases) auto
qed

abbreviation finishes :: "int \<Rightarrow> nat \<Rightarrow> phase \<Rightarrow> daemon \<Rightarrow> int \<times> string \<Rightarrow> daemon \<Rightarrow> bool" where
  "finishes pid \<equiv> completes (section_turn pid) unlocking"

lemmas turn = goes_on [where turn = "section_turn pid" and at_end = unlocking for pid]

lemma at_unlock: "finishes pid 0 (Writing [] r text) st (r, text) st"
  by (simp add: ends)

lemma finishes_writes: "finishes pid (length ws) (Writing ws r text) st (r, text) (fold write_room ws st)"
  by (induction ws arbitrary: st) (auto intro: at_unlock turn)

lemma finishes_found:
  assumes "decide pid q found st = (ws, r, text)"
  shows "finishes pid (Suc (length ws)) (Found q found) st (r, cut text) (fold write_room ws st)"
  using assms by (auto intro!: turn finishes_writes)

lemma finishes_named:
  assumes "name_of q = Some name" and "decide pid q (find_room st name) st = (ws, r, text)"
  shows "finishes pid (Suc (Suc (length ws))) (Locked q) st (r, cut text) (fold write_room ws st)"
  using assms(1) by (auto intro!: turn [OF _ finishes_found [OF assms(2)]])

text \<open>The loop over the rooms, turn by turn.\<close>

lemma finishes_listing:
  assumes "list_loop BUFFER_SIZE (drop i (live st)) buf off = Inr text" and "room_count st \<le> length (rooms st)"
  shows "\<exists>n \<le> Suc (room_count st - i). finishes pid n (Listing i buf off) st (0, text) st"
  using assms(1)
proof (induction "room_count st - i" arbitrary: i buf off)
  case 0
  then have "text = buf" by (simp add: live_def)
  moreover have "section_turn pid (Listing i buf off) st = Some (Writing [] 0 buf, st)" using 0 by simp
  ultimately show ?case using turn [OF _ at_unlock] by fastforce
next
  case (Suc k)
  then have i: "i < room_count st" by simp
  then have rest: "drop i (live st) = rooms st ! i # drop (Suc i) (live st)"
    using assms(2) by (simp add: live_def drop_take Cons_nth_drop_Suc flip: take_Suc_Cons Suc_diff_Suc)
  have step: "\<exists>n \<le> Suc (room_count st - i). finishes pid n (Listing i buf off) st (0, text) st"
    if here: "section_turn pid (Listing i buf off) st = Some (Listing (Suc i) buf' off', st)"
      and later: "list_loop BUFFER_SIZE (drop (Suc i) (live st)) buf' off' = Inr text" for buf' off'
  proof -
    have "k = room_count st - Suc i" using Suc.hyps(2) by simp
    then obtain n where "n \<le> Suc (room_count st - Suc i)"
      "finishes pid n (Listing (Suc i) buf' off') st (0, text) st"
      using Suc.hyps(1) [OF _ later] by blast
    then show ?thesis using turn [OF here] i by (intro exI [of _ "Suc n"]) auto
  qed
  show ?case
  proof (cases "int off < int BUFFER_SIZE - 1")
    case True
    show ?thesis
    proof (cases "r_active (rooms st ! i)")
      case active: True
      then obtain buf' where "snprintf_at buf BUFFER_SIZE off (room_line (rooms st ! i)) = Inr buf'"
        using Suc.prems True by (auto simp: rest split: sum.splits)
      then show ?thesis using Suc.prems True active i by (intro step) (auto simp: rest)
    next
      case False
      then show ?thesis using Suc.prems True i by (intro step) (auto simp: rest)
    qed
  next
    case False
    then have "section_turn pid (Listing i buf off) st = Some (Writing [] 0 text, st)"
      using Suc.prems by (auto simp: rest)
    then show ?thesis using turn [OF _ at_unlock] by fastforce
  qed
qed

text \<open>The six writes of \<open>add_room\<close>, and those of start and stop.\<close>

lemma writes_add_room:
  assumes "length (rooms st) = MAX_ROOMS" and "room_count st < MAX_ROOMS"
  shows "fold write_room [New_Name name, New_Size sz, New_Status, New_Pid, New_Active, Count_Up] st =
    snd (add_room name sz st)"
  using assms by (simp add: change_room_def set_room_def add_room_def Let_def)

lemma writes_start: "i < length (rooms st) \<Longrightarrow>
    fold write_room [Set_Status i ROOM_RUNNING, Set_Pid i pid] st = set_room i (started pid (rooms st ! i)) st"
  by (simp add: change_room_def set_room_def started_def)

lemma writes_stop: "i < length (rooms st) \<Longrightarrow>
    fold write_room [Set_Status i ROOM_STOPPED, Drop_Pid i] st = set_room i (stopped (rooms st ! i)) st"
  by (simp add: change_room_def set_room_def stopped_def)

section \<open>A critical section does what the command does at once\<close>

lemma reply_cut: "reply (Some []) BUFFER_SIZE text = Some (cut text)"
  by (simp add: reply_def snprintf_c_def BUFFER_SIZE_def)

lemma begin_command_cases:
  "begin_command bytes = Wanting bytes \<or> (\<exists>r msg. begin_command bytes = Sending r msg)"
  by (cases "command_in bytes") (simp_all add: begin_command_def)

lemma command_turn_perform:
  assumes "daemon_inv pid st"
  shows "perform pid (command_in bytes) [] BUFFER_SIZE st =
    Inr (fst (fst (command_turn pid st bytes)), Some (snd (fst (command_turn pid st bytes))),
         snd (command_turn pid st bytes))"
  using command_turn_list(4) [OF assms, of bytes]
  by (simp add: handle_command_perform command_in_def BUFFER_SIZE_def)

lemma begin_command_direct:
  assumes "daemon_inv pid st" and "begin_command bytes = Sending r msg"
  shows "command_turn pid st bytes = ((r, msg), st)"
proof -
  have free: "depth (rooms_mutex st) = 0" using assms(1) by (simp add: daemon_inv_def)
  have "perform pid (command_in bytes) [] BUFFER_SIZE st = Inr (r, Some msg, st)"
    using assms(2)
    by (cases "command_in bytes")
      (auto simp: begin_command_def reply_cut cmd_create_eq [OF free] cmd_exit_daemon_def split: if_splits)
  then show ?thesis using command_turn_perform [OF assms(1), of bytes] by (simp add: prod_eq_iff)
qed

lemma finishes_list:
  assumes "daemon_inv pid st"
  shows "\<exists>n \<le> MAX_ROOMS + 2. finishes pid n (Locked Show_All) st (0, take (BUFFER_SIZE - 1) (room_list st)) st"
proof -
  have len: "room_count st \<le> MAX_ROOMS" "length (rooms st) = MAX_ROOMS" and free: "depth (rooms_mutex st) = 0"
    using assms by (simp_all add: daemon_inv_def table_inv_def)
  have "list_rooms [] BUFFER_SIZE st = Inr (take (BUFFER_SIZE - 1) (room_list st), st)"
    by (rule list_rooms_eq [OF _ _ free]) (simp_all add: BUFFER_SIZE_def)
  moreover have "snprintf_at [] BUFFER_SIZE 0 rooms_header = Inr rooms_header"
    using snprintf_at_inside [of 0 BUFFER_SIZE "[]" rooms_header] by (simp add: BUFFER_SIZE_def)
  ultimately have loop: "(if room_count st = 0 then snprintf_at rooms_header BUFFER_SIZE 10 ''No rooms created''
       else list_loop BUFFER_SIZE (drop 0 (live st)) rooms_header 10) = Inr (take (BUFFER_SIZE - 1) (room_list st))"
    by (auto simp: list_rooms_def lock_rooms_free [OF free] live_def split: sum.splits if_splits)
  show ?thesis
  proof (cases "room_count st = 0")
    case True
    then have "section_turn pid (Locked Show_All) st =
        Some (Writing [] 0 (take (BUFFER_SIZE - 1) (room_list st)), st)"
      using loop by simp
    from turn [OF this at_unlock] show ?thesis by (intro exI [of _ 1]) simp
  next
    case False
    then have "\<exists>n \<le> Suc (room_count st - 0).
        finishes pid n (Listing 0 rooms_header 10) st (0, take (BUFFER_SIZE - 1) (room_list st)) st"
      using loop len by (intro finishes_listing) simp_all
    then obtain n where "n \<le> Suc (room_count st)"
        "finishes pid n (Listing 0 rooms_header 10) st (0, take (BUFFER_SIZE - 1) (room_list st)) st" by auto
    then show ?thesis using False len by (intro exI [of _ "Suc n"]) (auto intro!: turn)
  qed
qed

lemma perform_decide:
  assumes "daemon_inv pid st" and "begin_command bytes = Wanting bytes" and "name_of (command_in bytes) = Some name"
    and decided: "decide pid (command_in bytes) (find_room st name) st = (ws, r, full)"
  shows "perform pid (command_in bytes) [] BUFFER_SIZE st = Inr (r, Some (cut full), fold write_room ws st)"
    and "length ws \<le> 6"
proof -
  have free: "depth (rooms_mutex st) = 0" and len: "length (rooms st) = MAX_ROOMS"
    and used: "\<And>i. find_room st name = Some i \<Longrightarrow> i < length (rooms st)"
    using assms(1) find_room_Some(1) by (fastforce simp: daemon_inv_def table_inv_def)+
  show "perform pid (command_in bytes) [] BUFFER_SIZE st = Inr (r, Some (cut full), fold write_room ws st)"
  proof (cases "command_in bytes")
    case (Create_Room n sz)
    then have n: "n = name" "\<not> sz \<le> 0" "\<not> 10000 < sz" using assms(2,3) by (auto simp: begin_command_def split: if_splits)
    consider i where "find_room st name = Some i" | "find_room st name = None" "MAX_ROOMS \<le> room_count st"
      | "find_room st name = None" "room_count st < MAX_ROOMS"
      by (metis linorder_not_less option.exhaust)
    then show ?thesis
    proof cases
      case 3
      then have "fst (add_room name sz st) = 0" by (simp add: add_room_def Let_def)
      then show ?thesis
        using decided 3 writes_add_room [OF len 3(2), of name sz, symmetric]
        by (auto simp: Create_Room n cmd_create_eq [OF free] reply_cut)
    qed (use decided in \<open>auto simp: Create_Room n cmd_create_eq [OF free] reply_cut add_room_def\<close>)
  next
    case (Start_Room n)
    then show ?thesis
      using assms(3) decided used
      by (auto simp: cmd_start_eq [OF free] reply_cut writes_start [symmetric] split: if_splits option.splits)
  next
    case (Stop_Room n)
    then show ?thesis
      using assms(3) decided used
      by (auto simp: cmd_stop_eq [OF free] reply_cut writes_stop [symmetric] split: if_splits option.splits)
  next
    case (Show_Room n)
    then show ?thesis using assms(3) decided by (auto simp: cmd_show_eq [OF free] reply_cut)
  qed (use assms(3) in simp_all)
  show "length ws \<le> 6"
    using decided by (cases "command_in bytes") (auto split: if_splits option.splits)
qed

lemma finishes_locked:
  assumes "daemon_inv pid st" and "begin_command bytes = Wanting bytes"
  shows "\<exists>n \<le> MAX_ROOMS + 2. finishes pid n (Locked (command_in bytes)) st
     (fst (command_turn pid st bytes)) (snd (command_turn pid st bytes))"
proof (cases "name_of (command_in bytes)")
  case (Some name)
  obtain ws r full where decided: "decide pid (command_in bytes) (find_room st name) st = (ws, r, full)"
    by (metis surj_pair)
  note performed = perform_decide [OF assms Some decided]
  have "command_turn pid st bytes = ((r, cut full), fold write_room ws st)"
    using performed(1) command_turn_perform [OF assms(1), of bytes] by (simp add: prod_eq_iff)
  then show ?thesis
    using finishes_named [OF Some decided] performed(2)
    by (intro exI [of _ "Suc (Suc (length ws))"]) (simp add: MAX_ROOMS_def)
next
  case None
  then have all: "command_in bytes = Show_All"
    using assms(2) by (cases "command_in bytes") (simp_all add: begin_command_def)
  have "depth (rooms_mutex st) = 0" using assms(1) by (simp add: daemon_inv_def)
  then have "command_turn pid st bytes = ((0, take (BUFFER_SIZE - 1) (room_list st)), st)"
    using command_turn_perform [OF assms(1), of bytes] by (simp add: all list_rooms_eq BUFFER_SIZE_def prod_eq_iff)
  then show ?thesis using finishes_list [OF assms(1)] by (simp add: all)
qed

text \<open>A signal that arrives meanwhile changes nothing in it.\<close>

lemma section_turn_running:
  assumes "section_turn pid p st = Some (p', st')"
  shows "section_turn pid p (st\<lparr>daemon_running := b\<rparr>) = Some (p', st'\<lparr>daemon_running := b\<rparr>)"
proof -
  have found: "find_room (st\<lparr>daemon_running := b\<rparr>) name = find_room st name" for name
    by (simp add: find_room_def)
  have decided: "decide pid q f (st\<lparr>daemon_running := b\<rparr>) = decide pid q f st" for q f
    by (cases q) (simp_all split: option.splits)
  have wrote: "write_room w (st\<lparr>daemon_running := b\<rparr>) = (write_room w st)\<lparr>daemon_running := b\<rparr>" for w
    by (cases w) (simp_all add: change_room_def set_room_def)
  show ?thesis
    using assms
    by (cases "(pid, p, st)" rule: section_turn.cases)
      (auto simp: found decided wrote split: if_splits sum.splits option.splits prod.splits)
qed

lemma finishes_running:
  "finishes pid n p st a st' \<Longrightarrow>
     finishes pid n p (st\<lparr>daemon_running := b\<rparr>) a (st'\<lparr>daemon_running := b\<rparr>)"
  by (rule rooms.completes_change [where f = "\<lambda>st. st\<lparr>daemon_running := b\<rparr>", OF section_turn_running])

section \<open>The order of the commands\<close>

text \<open>A command takes effect when its thread gets the mutex; one that needs no mutex, when it is received.\<close>

fun took_effect :: "thread_event \<Rightarrow> (int \<times> char list) list" where
  "took_effect (C_Recv fd bytes) = (if begin_command bytes = Wanting bytes then [] else [(fd, bytes)])"
| "took_effect (C_Lock fd bytes) = [(fd, bytes)]"
| "took_effect _ = []"

definition handled :: "thread_event list \<Rightarrow> (int \<times> char list) list" where
  "handled es = concat (map took_effect es)"

definition rooms_after :: "int \<Rightarrow> (int \<times> char list) list \<Rightarrow> room list" where
  "rooms_after pid cs = state_after (list_turn pid) [] (map snd cs)"

text \<open>What the list of rooms answers to one client, when it handles the commands of all in this order.\<close>

definition answers_for :: "int \<Rightarrow> int \<Rightarrow> (int \<times> char list) list \<Rightarrow> (int \<times> string) list" where
  "answers_for pid fd cs =
     map snd (filter (\<lambda>(f, _). f = fd) (zip (map fst cs) (answers (list_turn pid) [] (map snd cs))))"

text \<open>What one client sent and what was sent to it, with the result of the command.\<close>

fun asked :: "int \<Rightarrow> thread_event list \<Rightarrow> char list list" where
  "asked fd [] = []"
| "asked fd (C_Recv f bytes # es) = (if f = fd then bytes # asked fd es else asked fd es)"
| "asked fd (_ # es) = asked fd es"

definition commands_from :: "int \<Rightarrow> (int \<times> char list) list \<Rightarrow> char list list" where
  "commands_from fd cs = map snd (filter (\<lambda>(f, _). f = fd) cs)"

definition sent_to :: "int \<Rightarrow> threads \<Rightarrow> (int \<times> string) list" where
  "sent_to fd s = map (\<lambda>(_, a, _). a) (filter (\<lambda>(f, _, _). f = fd) (th_sends s))"

fun waiting :: "phase \<Rightarrow> char list list" where
  "waiting (Wanting bytes) = [bytes]"
| "waiting _ = []"

fun ready :: "phase \<Rightarrow> (int \<times> string) list" where
  "ready (Sending r text) = [(r, text)]"
| "ready _ = []"

lemma handled_snoc [simp]: "handled [] = []" "handled (es @ [e]) = handled es @ took_effect e"
  by (simp_all add: handled_def)

lemma rooms_after_snoc [simp]:
  "rooms_after pid [] = []" "rooms_after pid (cs @ [(fd, b)]) = snd (list_turn pid (rooms_after pid cs) b)"
  by (simp_all add: rooms_after_def)

lemma answers_for_snoc [simp]:
  "answers_for pid fd [] = []"
  "answers_for pid fd (cs @ [(f, b)]) =
     answers_for pid fd cs @ (if f = fd then [fst (list_turn pid (rooms_after pid cs) b)] else [])"
  by (simp_all add: answers_for_def rooms_after_def)

lemma asked_append [simp]: "asked fd (es @ es') = asked fd es @ asked fd es'"
  by (induction fd es rule: asked.induct) simp_all

lemma commands_from_snoc [simp]:
  "commands_from fd [] = []"
  "commands_from fd (cs @ [(f, b)]) = commands_from fd cs @ (if f = fd then [b] else [])"
  by (simp_all add: commands_from_def)

section \<open>The invariant\<close>

fun inside :: "phase \<Rightarrow> bool" where
  "inside (Locked _) = True"
| "inside (Found _ _) = True"
| "inside (Listing _ _ _) = True"
| "inside (Writing _ _ _) = True"
| "inside _ = False"

definition owner_inv :: "threads \<Rightarrow> bool" where
  "owner_inv s \<longleftrightarrow>
     (\<forall>fd. inside (th_phase s fd) \<longleftrightarrow> th_owner s = Some (Client_Thread fd)) \<and>
     (th_owner s = Some Main_Thread \<longleftrightarrow> th_main s = Main_Kill) \<and>
     (\<forall>fd bytes. th_phase s fd = Wanting bytes \<longrightarrow> begin_command bytes = Wanting bytes)"

text \<open>The table as it is, or as the thread in its critical section is going to leave it.\<close>

definition table_to_be :: "int \<Rightarrow> thread_event list \<Rightarrow> threads \<Rightarrow> bool" where
  "table_to_be pid es s \<longleftrightarrow>
     (case th_owner s of
        Some (Client_Thread fd) \<Rightarrow>
          \<exists>n a st. n \<le> MAX_ROOMS + 2 \<and> finishes pid n (th_phase s fd) (th_globals s) a st \<and>
            daemon_inv pid st \<and> live st = rooms_after pid (handled es) \<and>
            answers_for pid fd (handled es) = sent_to fd s @ [a]
      | _ \<Rightarrow> daemon_inv pid (th_globals s) \<and> live (th_globals s) = rooms_after pid (handled es))"

definition clients_inv :: "int \<Rightarrow> thread_event list \<Rightarrow> threads \<Rightarrow> bool" where
  "clients_inv pid es s \<longleftrightarrow>
     (\<forall>fd. asked fd es = commands_from fd (handled es) @ waiting (th_phase s fd)) \<and>
     (\<forall>fd. th_owner s \<noteq> Some (Client_Thread fd) \<longrightarrow>
        answers_for pid fd (handled es) = sent_to fd s @ ready (th_phase s fd))"

lemma section_turn_inside:
  "section_turn pid p st = Some (p', st') \<Longrightarrow> inside p \<and> inside p'"
  by (cases "(pid, p, st)" rule: section_turn.cases)
    (auto split: if_splits sum.splits option.splits prod.splits)

lemma inside_phases [simp]:
  "inside p \<Longrightarrow> waiting p = []" "inside p \<Longrightarrow> ready p = []" "\<not> inside (begin_command bytes)"
  using begin_command_cases [of bytes] by (cases p; auto)+

lemma not_inside [simp]:
  "inside (th_phase s fd) \<Longrightarrow> th_phase s fd \<noteq> Gone" "inside (th_phase s fd) \<Longrightarrow> th_phase s fd \<noteq> Head"
  by auto

lemma owner_invD:
  assumes "owner_inv s"
  shows "inside (th_phase s fd) \<longleftrightarrow> th_owner s = Some (Client_Thread fd)"
    and "th_owner s = Some Main_Thread \<longleftrightarrow> th_main s = Main_Kill"
    and "th_phase s fd = Wanting bytes \<Longrightarrow> begin_command bytes = Wanting bytes"
  using assms by (simp_all add: owner_inv_def)

lemma owner_inv_frame [simp]:
  "owner_inv (s\<lparr>th_globals := g\<rparr>) = owner_inv s" "owner_inv (s\<lparr>th_sends := x\<rparr>) = owner_inv s"
  "owner_inv (s\<lparr>th_kills := k\<rparr>) = owner_inv s"
  by (simp_all add: owner_inv_def)

lemma owner_inv_go:
  assumes "owner_inv s" and "inside p \<longleftrightarrow> inside (th_phase s fd)"
    and "\<And>bytes. p = Wanting bytes \<Longrightarrow> begin_command bytes = Wanting bytes"
  shows "owner_inv (go fd p s)"
  using assms by (simp add: owner_inv_def)

lemma owner_step:
  assumes "thread_step pid s e s'" and "owner_inv s"
  shows "owner_inv s'"
  using assms
proof (induction rule: thread_step.induct)
  case (m_accept s fd)
  then have "owner_inv (go fd Head s)" by (intro owner_inv_go) auto
  with m_accept.hyps show ?case by (simp add: owner_inv_def)
next
  case (c_recv s fd bytes)
  then show ?case using begin_command_cases [of bytes] by (intro owner_inv_go) auto
next
  case (c_turn s fd p st)
  then show ?case using section_turn_inside [OF c_turn.hyps(2)] by (auto intro!: owner_inv_go)
next
  case (c_unlock s fd r msg)
  then have "th_owner s = Some (Client_Thread fd)" using owner_invD(1) [of s fd] by simp
  with c_unlock show ?case by (auto simp: owner_inv_def)
next
  case (c_hang_up s fd)
  then show ?case by (intro owner_inv_go) auto
next
  case (c_send s fd r msg ok)
  then show ?case by (simp only: owner_inv_frame) (intro owner_inv_go; auto split: if_splits)
next
  case (c_stop s fd)
  then show ?case by (simp only: owner_inv_frame) (intro owner_inv_go; simp)
qed (auto simp: owner_inv_def)

definition threads_inv :: "int \<Rightarrow> thread_event list \<Rightarrow> threads \<Rightarrow> bool" where
  "threads_inv pid es s \<longleftrightarrow> owner_inv s \<and> table_to_be pid es s \<and> clients_inv pid es s"

text \<open>Steps away from the critical sections, that receive and send nothing.\<close>

definition idle :: "phase \<Rightarrow> bool" where
  "idle p \<longleftrightarrow> p \<in> {Gone, Head, Receiving, Stopping}"

lemma idle_simps [simp]:
  "idle Gone" "idle Head" "idle Receiving" "idle Stopping"
  "idle p \<Longrightarrow> waiting p = []" "idle p \<Longrightarrow> ready p = []" "idle p \<Longrightarrow> \<not> inside p"
  by (auto simp: idle_def)

lemma live_running [simp]: "live (st\<lparr>daemon_running := b\<rparr>) = live st"
  by (simp add: live_def)

lemma table_to_be_running:
  assumes "table_to_be pid es s"
  shows "table_to_be pid es (s\<lparr>th_globals := (th_globals s)\<lparr>daemon_running := b\<rparr>\<rparr>)"
proof -
  have "\<exists>n a st'. n \<le> m \<and> finishes pid n p (st\<lparr>daemon_running := b\<rparr>) a st' \<and> daemon_inv pid st' \<and>
      live st' = rs \<and> as = xs @ [a]"
    if "n \<le> m" "finishes pid n p st a st'" "daemon_inv pid st'" "live st' = rs" "as = xs @ [a]"
    for n m p st a st' rs and as xs :: "(int \<times> string) list"
    using that finishes_running [OF that(2), of b] by (metis daemon_inv_running live_running)
  then show ?thesis
    using assms by (auto simp: table_to_be_def sent_to_def split: option.splits thread.splits)
qed

lemma idle_step:
  assumes "threads_inv pid es s" and "took_effect e = []"
    and "th_owner s' = th_owner s" and "th_sends s' = th_sends s" and "th_globals s' = th_globals s"
    and "\<And>f. th_phase s' f = th_phase s f \<or> idle (th_phase s f) \<and> idle (th_phase s' f)"
    and "\<And>f. asked f [e] = []"
  shows "table_to_be pid (es @ [e]) s' \<and> clients_inv pid (es @ [e]) s'"
proof
  have own: "owner_inv s" and table: "table_to_be pid es s" and clients: "clients_inv pid es s"
    using assms(1) by (simp_all add: threads_inv_def)
  have sent: "sent_to f s' = sent_to f s" for f by (simp add: sent_to_def assms(4))
  have inside: "th_phase s' f = th_phase s f" if "th_owner s = Some (Client_Thread f)" for f
    using assms(6) [of f] owner_invD(1) [OF own, of f] that by auto
  show "table_to_be pid (es @ [e]) s'"
    using table inside
    by (auto simp: table_to_be_def assms(2,3,5) sent split: option.splits thread.splits)
  have same: "waiting (th_phase s' f) = waiting (th_phase s f)" "ready (th_phase s' f) = ready (th_phase s f)" for f
    using assms(6) [of f] by auto
  show "clients_inv pid (es @ [e]) s'"
    using clients by (simp add: clients_inv_def assms(2,3,7) sent same)
qed

lemma sent_to_frame [simp]:
  "sent_to f (s\<lparr>th_phase := x\<rparr>) = sent_to f s" "sent_to f (s\<lparr>th_owner := w\<rparr>) = sent_to f s"
  "sent_to f (s\<lparr>th_globals := g\<rparr>) = sent_to f s" "sent_to f (s\<lparr>th_main := m\<rparr>) = sent_to f s"
  "sent_to f (s\<lparr>th_kills := k\<rparr>) = sent_to f s"
  "th_sends s = l \<Longrightarrow> sent_to f (s\<lparr>th_sends := l @ [(fd, a, ok)]\<rparr>) = sent_to f s @ (if f = fd then [a] else [])"
  by (simp_all add: sent_to_def)

lemma table_to_be_rooms:
  assumes "table_to_be pid es s"
  obtains st where "daemon_inv pid st" and "live st = rooms_after pid (handled es)"
  using assms by (auto simp: table_to_be_def split: option.splits thread.splits)

lemma lock_step:
  assumes "threads_inv pid es s" and "th_phase s fd = Wanting bytes" and "th_owner s = None"
  shows "table_to_be pid (es @ [C_Lock fd bytes])
      ((go fd (Locked (command_in bytes)) s)\<lparr>th_owner := Some (Client_Thread fd)\<rparr>) \<and>
    clients_inv pid (es @ [C_Lock fd bytes])
      ((go fd (Locked (command_in bytes)) s)\<lparr>th_owner := Some (Client_Thread fd)\<rparr>)"
proof -
  let ?g = "th_globals s"
  have own: "owner_inv s" and clients: "clients_inv pid es s" and inv: "daemon_inv pid ?g"
    and live: "live ?g = rooms_after pid (handled es)"
    using assms(1,3) by (simp_all add: threads_inv_def table_to_be_def)
  obtain n where n: "n \<le> MAX_ROOMS + 2" "finishes pid n (Locked (command_in bytes)) ?g
      (fst (command_turn pid ?g bytes)) (snd (command_turn pid ?g bytes))"
    using finishes_locked [OF inv owner_invD(3) [OF own assms(2)]] by blast
  note turned = command_turn_list [OF inv, of bytes, unfolded live]
  have "answers_for pid fd (handled es) = sent_to fd s"
    using clients assms(2,3) by (force simp: clients_inv_def)
  then have "\<exists>n a st. n \<le> MAX_ROOMS + 2 \<and> finishes pid n (Locked (command_in bytes)) ?g a st \<and>
      daemon_inv pid st \<and> live st = rooms_after pid (handled es @ [(fd, bytes)]) \<and>
      answers_for pid fd (handled es @ [(fd, bytes)]) = sent_to fd s @ [a]"
    using n turned by (intro exI conjI) simp_all
  then show ?thesis
    using clients assms(2,3) by (auto simp: table_to_be_def clients_inv_def)
qed

lemma receive_step:
  assumes "threads_inv pid es s" and "th_phase s fd = Receiving"
  shows "table_to_be pid (es @ [C_Recv fd bytes]) (go fd (begin_command bytes) s) \<and>
    clients_inv pid (es @ [C_Recv fd bytes]) (go fd (begin_command bytes) s)"
proof -
  have own: "owner_inv s" and clients: "clients_inv pid es s" and table: "table_to_be pid es s"
    using assms(1) by (simp_all add: threads_inv_def)
  have owner: "th_owner s \<noteq> Some (Client_Thread fd)" using owner_invD(1) [OF own, of fd] assms(2) by simp
  consider "begin_command bytes = Wanting bytes" | r msg where "begin_command bytes = Sending r msg"
    using begin_command_cases by blast
  then show ?thesis
  proof cases
    case 1
    then show ?thesis
      using clients owner assms(2) table
      by (auto simp: table_to_be_def clients_inv_def split: option.splits thread.splits)
  next
    case 2
    obtain st where st: "daemon_inv pid st" "live st = rooms_after pid (handled es)"
      using table by (rule table_to_be_rooms)
    have "list_turn pid (rooms_after pid (handled es)) bytes = ((r, msg), rooms_after pid (handled es))"
      using command_turn_list(1,2) [OF st(1), of bytes] begin_command_direct [OF st(1) 2] st(2)
      by (simp add: prod_eq_iff)
    then show ?thesis
      using clients owner assms(2) table 2
      by (auto simp: table_to_be_def clients_inv_def split: option.splits thread.splits)
  qed
qed

lemma turn_step:
  assumes "threads_inv pid es s" and "section_turn pid (th_phase s fd) (th_globals s) = Some (p, st)"
  shows "table_to_be pid (es @ [C_Turn fd]) ((go fd p s)\<lparr>th_globals := st\<rparr>) \<and>
    clients_inv pid (es @ [C_Turn fd]) ((go fd p s)\<lparr>th_globals := st\<rparr>)"
proof -
  have own: "owner_inv s" and clients: "clients_inv pid es s" and table: "table_to_be pid es s"
    using assms(1) by (simp_all add: threads_inv_def)
  have ins: "inside (th_phase s fd)" "inside p" using section_turn_inside [OF assms(2)] by auto
  then have owner: "th_owner s = Some (Client_Thread fd)" using owner_invD(1) [OF own, of fd] by simp
  obtain n a st' where n: "n \<le> MAX_ROOMS + 2" "finishes pid n (th_phase s fd) (th_globals s) a st'"
      "daemon_inv pid st'" "live st' = rooms_after pid (handled es)"
      "answers_for pid fd (handled es) = sent_to fd s @ [a]"
    using table owner by (auto simp: table_to_be_def)
  obtain m where "n = Suc m" "finishes pid m p st a st'"
    using rooms.completes_turn [OF n(2) assms(2)] by blast
  then have "\<exists>n a st''. n \<le> MAX_ROOMS + 2 \<and> finishes pid n p st a st'' \<and> daemon_inv pid st'' \<and>
      live st'' = rooms_after pid (handled es) \<and> answers_for pid fd (handled es) = sent_to fd s @ [a]"
    using n by (intro exI [of _ m] exI [of _ a] exI [of _ st']) simp
  then show ?thesis
    using clients ins owner by (auto simp: table_to_be_def clients_inv_def)
qed

lemma unlock_step:
  assumes "threads_inv pid es s" and "th_phase s fd = Writing [] r msg"
  shows "table_to_be pid (es @ [C_Unlock fd]) ((go fd (Sending r msg) s)\<lparr>th_owner := None\<rparr>) \<and>
    clients_inv pid (es @ [C_Unlock fd]) ((go fd (Sending r msg) s)\<lparr>th_owner := None\<rparr>)"
proof -
  have own: "owner_inv s" and clients: "clients_inv pid es s" and table: "table_to_be pid es s"
    using assms(1) by (simp_all add: threads_inv_def)
  have owner: "th_owner s = Some (Client_Thread fd)" using owner_invD(1) [OF own, of fd] assms(2) by simp
  then have "daemon_inv pid (th_globals s)" "live (th_globals s) = rooms_after pid (handled es)"
      "answers_for pid fd (handled es) = sent_to fd s @ [(r, msg)]"
    using table assms(2) by (auto simp: table_to_be_def rooms.completes_at_end)
  then show ?thesis
    using clients owner assms(2) by (auto simp: table_to_be_def clients_inv_def)
qed

lemma send_step:
  assumes "threads_inv pid es s" and "th_phase s fd = Sending r msg" and "idle p"
  shows "table_to_be pid (es @ [C_Send fd ok]) ((go fd p s)\<lparr>th_sends := th_sends s @ [(fd, (r, msg), ok)]\<rparr>) \<and>
    clients_inv pid (es @ [C_Send fd ok]) ((go fd p s)\<lparr>th_sends := th_sends s @ [(fd, (r, msg), ok)]\<rparr>)"
proof -
  have own: "owner_inv s" and clients: "clients_inv pid es s" and table: "table_to_be pid es s"
    using assms(1) by (simp_all add: threads_inv_def)
  have owner: "th_owner s \<noteq> Some (Client_Thread fd)" using owner_invD(1) [OF own, of fd] assms(2) by simp
  show ?thesis
    using clients owner assms(2,3) table
    by (auto simp: table_to_be_def clients_inv_def split: option.splits thread.splits)
qed

lemma thread_step_inv:
  assumes "thread_step pid s e s'" and "threads_inv pid es s"
  shows "threads_inv pid (es @ [e]) s'"
proof -
  have "table_to_be pid (es @ [e]) s' \<and> clients_inv pid (es @ [e]) s'"
    using assms
  proof cases
    case m_lock
    then show ?thesis using assms(2) by (auto simp: threads_inv_def table_to_be_def clients_inv_def)
  next
    case m_unlock
    then have "th_owner s = Some Main_Thread" using assms(2) by (simp add: threads_inv_def owner_inv_def)
    then show ?thesis
      using assms(2) m_unlock by (auto simp: threads_inv_def table_to_be_def clients_inv_def)
  next
    case (c_recv fd bytes)
    then show ?thesis using receive_step [OF assms(2)] by simp
  next
    case (c_lock fd bytes)
    then show ?thesis using lock_step [OF assms(2)] by simp
  next
    case (c_turn fd p st)
    then show ?thesis using turn_step [OF assms(2)] by simp
  next
    case (c_unlock fd r msg)
    then show ?thesis using unlock_step [OF assms(2)] by simp
  next
    case (c_send fd r msg ok)
    then show ?thesis
      using send_step [OF assms(2) c_send(4), of "if \<not> ok then Gone else if r = 1 then Stopping else Head" ok] by simp
  next
    case (c_stop fd)
    let ?s = "s\<lparr>th_globals := (th_globals s)\<lparr>daemon_running := False\<rparr>\<rparr>"
    have "threads_inv pid es ?s"
      using assms(2) table_to_be_running [of pid es s False] by (simp add: threads_inv_def clients_inv_def)
    then show ?thesis
      using c_stop idle_step [of pid es ?s e s'] by simp
  next
    case (a_signal sg)
    let ?s = "s\<lparr>th_globals := signal_handler sg (th_globals s)\<rparr>"
    have "threads_inv pid es ?s"
      using assms(2) table_to_be_running [of pid es s False]
      by (cases sg) (simp_all add: threads_inv_def clients_inv_def)
    then show ?thesis using a_signal idle_step [of pid es ?s e s'] by simp
  qed (use idle_step [OF assms(2), of e s'] in auto)
  then show ?thesis
    using owner_step [OF assms(1)] assms(2) by (simp add: threads_inv_def)
qed

lemma threads_inv_start: "threads_inv pid [] threads_start"
proof -
  have "live daemon_start = []" by (simp add: live_def daemon_start_def)
  then show ?thesis
    by (simp add: threads_inv_def owner_inv_def table_to_be_def clients_inv_def threads_start_def
        daemon_inv_start sent_to_def)
qed

lemma threads_run_inv: "threads_run pid threads_start es s \<Longrightarrow> threads_inv pid es s"
  by (induction rule: threads_run.induct) (auto intro: threads_inv_start thread_step_inv)

section \<open>Runs\<close>

lemma threads_run_trans: "threads_run pid s' es' s'' \<Longrightarrow> threads_run pid s es s' \<Longrightarrow> threads_run pid s (es @ es') s''"
  by (induction rule: threads_run.induct) (auto intro: onward simp flip: append_assoc)

lemma threads_run_step: "thread_step pid s e s' \<Longrightarrow> threads_run pid s [e] s'"
  using onward [OF stay] by force

lemma threads_run_Cons:
  "thread_step pid s e s' \<Longrightarrow> threads_run pid s' es s'' \<Longrightarrow> threads_run pid s (e # es) s''"
  using threads_run_trans [OF _ threads_run_step] by force

text \<open>The thread with the mutex goes through its critical section on its own.\<close>

lemma section_run:
  assumes "finishes pid n p st a st'" and "th_phase s fd = p" and "th_globals s = st" and "th_main s \<noteq> Main_Gone"
  shows "threads_run pid s (replicate n (C_Turn fd))
     ((go fd (Writing [] (fst a) (snd a)) s)\<lparr>th_globals := st'\<rparr>)"
  using assms
proof (induction arbitrary: s rule: completes.induct)
  case (ends p a st)
  then have "p = Writing [] (fst a) (snd a)" by (cases p rule: unlocking.cases) auto
  then have "(go fd (Writing [] (fst a) (snd a)) s)\<lparr>th_globals := st\<rparr> = s"
    using ends by (cases s) (auto simp: fun_upd_idem)
  then show ?case by (simp only: replicate_0 stay)
next
  case (goes_on p st p' st' n a st'')
  let ?s = "(go fd p' s)\<lparr>th_globals := st'\<rparr>"
  have "threads_run pid ?s (replicate n (C_Turn fd))
      ((go fd (Writing [] (fst a) (snd a)) ?s)\<lparr>th_globals := st''\<rparr>)"
    using goes_on.prems by (intro goes_on.IH) simp_all
  then show ?case
    using threads_run_Cons [OF thread_step.c_turn [of s pid fd p' st']] goes_on by (simp del: fun_upd_apply)
qed

lemma mutex_given_back:
  assumes "threads_inv pid es s" and "\<not> mutex_destroyed s"
  shows "\<exists>es' s'. threads_run pid s es' s' \<and> th_owner s' = None \<and> length es' \<le> MAX_ROOMS + 3 \<and>
    \<not> mutex_destroyed s' \<and> (\<forall>fd. \<not> inside (th_phase s fd) \<longrightarrow> th_phase s' fd = th_phase s fd)"
proof (cases "th_owner s")
  case None
  then show ?thesis using stay [of pid s] assms(2) by (intro exI [of _ "[]"] exI [of _ s]) simp
next
  case (Some t)
  show ?thesis
  proof (cases t)
    case Main_Thread
    then have "th_main s = Main_Kill" using assms(1) Some by (simp add: threads_inv_def owner_inv_def)
    from threads_run_step [OF m_unlock [OF this]] show ?thesis
      by (intro exI conjI) (assumption, simp_all add: mutex_destroyed_def)
  next
    case (Client_Thread fd)
    then obtain n r msg st where n: "n \<le> MAX_ROOMS + 2"
        "finishes pid n (th_phase s fd) (th_globals s) (r, msg) st"
      using assms(1) Some by (auto simp: threads_inv_def table_to_be_def)
    let ?s = "(go fd (Writing [] r msg) s)\<lparr>th_globals := st\<rparr>"
    have "threads_run pid s (replicate n (C_Turn fd)) ?s"
      using section_run [OF n(2), of s fd] assms(2) by (simp add: mutex_destroyed_def)
    moreover have "thread_step pid ?s (C_Unlock fd) ((go fd (Sending r msg) ?s)\<lparr>th_owner := None\<rparr>)"
      using assms(2) by (intro c_unlock) (simp_all add: mutex_destroyed_def)
    ultimately have "threads_run pid s (replicate n (C_Turn fd) @ [C_Unlock fd])
        ((go fd (Sending r msg) ?s)\<lparr>th_owner := None\<rparr>)"
      by (rule onward)
    moreover have "inside (th_phase s fd)"
      using assms(1) Some Client_Thread owner_invD(1) [of s fd] by (simp add: threads_inv_def)
    ultimately show ?thesis
      using n(1) assms(2) by (intro exI conjI) (assumption, auto simp: mutex_destroyed_def)
  qed
qed

text \<open>The steps as a function: an event has at most one outcome.\<close>

fun next_threads :: "int \<Rightarrow> threads \<Rightarrow> thread_event \<Rightarrow> threads option" where
  "next_threads pid s M_Check =
     (if th_main s \<noteq> Main_Check then None
      else Some (s\<lparr>th_main := if daemon_running (th_globals s) then Main_Accept else Main_Cleanup\<rparr>))"
| "next_threads pid s (M_Accept fd) =
     (if th_main s = Main_Accept \<and> th_phase s fd = Gone then Some ((go fd Head s)\<lparr>th_main := Main_Check\<rparr>) else None)"
| "next_threads pid s M_Drop = (if th_main s = Main_Accept then Some (s\<lparr>th_main := Main_Check\<rparr>) else None)"
| "next_threads pid s M_Fail = (if th_main s = Main_Accept then Some (s\<lparr>th_main := Main_Cleanup\<rparr>) else None)"
| "next_threads pid s M_Lock =
     (if th_main s = Main_Cleanup \<and> th_owner s = None
      then Some (s\<lparr>th_main := Main_Kill, th_owner := Some Main_Thread\<rparr>) else None)"
| "next_threads pid s M_Unlock =
     (if th_main s = Main_Kill
      then Some (s\<lparr>th_main := Main_Destroy, th_owner := None, th_kills := kill_monitors (live (th_globals s))\<rparr>)
      else None)"
| "next_threads pid s M_Destroy = (if th_main s = Main_Destroy then Some (s\<lparr>th_main := Main_Leave\<rparr>) else None)"
| "next_threads pid s M_Return = (if th_main s = Main_Leave then Some (s\<lparr>th_main := Main_Gone\<rparr>) else None)"
| "next_threads pid s (A_Signal sg) =
     (if th_main s = Main_Gone then None else Some (s\<lparr>th_globals := signal_handler sg (th_globals s)\<rparr>))"
| "next_threads pid s (C_Check fd) =
     (if th_main s = Main_Gone \<or> th_phase s fd \<noteq> Head then None
      else Some (go fd (if daemon_running (th_globals s) then Receiving else Gone) s))"
| "next_threads pid s (C_Recv fd bytes) =
     (if th_main s = Main_Gone \<or> th_phase s fd \<noteq> Receiving \<or> bytes = [] then None
      else Some (go fd (begin_command bytes) s))"
| "next_threads pid s (C_Hang_Up fd) =
     (if th_main s = Main_Gone \<or> th_phase s fd \<noteq> Receiving then None else Some (go fd Gone s))"
| "next_threads pid s (C_Lock fd bytes) =
     (if mutex_destroyed s \<or> th_phase s fd \<noteq> Wanting bytes \<or> th_owner s \<noteq> None then None
      else Some ((go fd (Locked (command_in bytes)) s)\<lparr>th_owner := Some (Client_Thread fd)\<rparr>))"
| "next_threads pid s (C_Turn fd) =
     (if th_main s = Main_Gone then None
      else map_option (\<lambda>(p, st). (go fd p s)\<lparr>th_globals := st\<rparr>) (section_turn pid (th_phase s fd) (th_globals s)))"
| "next_threads pid s (C_Unlock fd) =
     (if mutex_destroyed s then None
      else case th_phase s fd of
             Writing [] r text \<Rightarrow> Some ((go fd (Sending r text) s)\<lparr>th_owner := None\<rparr>)
           | _ \<Rightarrow> None)"
| "next_threads pid s (C_Send fd ok) =
     (if th_main s = Main_Gone then None
      else case th_phase s fd of
             Sending r text \<Rightarrow>
               Some ((go fd (if \<not> ok then Gone else if r = 1 then Stopping else Head) s)
                       \<lparr>th_sends := th_sends s @ [(fd, (r, text), ok)]\<rparr>)
           | _ \<Rightarrow> None)"
| "next_threads pid s (C_Stop fd) =
     (if th_main s = Main_Gone \<or> th_phase s fd \<noteq> Stopping then None
      else Some ((go fd Gone s)\<lparr>th_globals := (th_globals s)\<lparr>daemon_running := False\<rparr>\<rparr>))"

lemma thread_step_iff: "thread_step pid s e s' \<longleftrightarrow> next_threads pid s e = Some s'"
proof
  show "thread_step pid s e s' \<Longrightarrow> next_threads pid s e = Some s'"
    by (induction rule: thread_step.induct) simp_all
  assume here: "next_threads pid s e = Some s'"
  show "thread_step pid s e s'"
  proof (cases e)
    case (C_Send fd ok)
    then obtain r msg where "th_main s \<noteq> Main_Gone" "th_phase s fd = Sending r msg"
      using here by (auto split: if_splits phase.splits)
    then show ?thesis using c_send [of s fd r msg pid ok] here by (simp add: C_Send)
  qed (use here in \<open>auto intro: thread_step.intros split: if_splits phase.splits list.splits\<close>)
qed

lemma run_threads_run: "run_events (next_threads pid) s es = Some s' \<Longrightarrow> threads_run pid s es s'"
  by (induction es arbitrary: s)
    (auto simp: thread_step_iff [symmetric] bind_eq_Some_conv intro: stay threads_run_Cons)

section \<open>Properties\<close>

text \<open>C13. Whatever steps the threads of the socket daemon take in whatever order, down to single accesses to
  the room table, there is one order of the commands of all clients, in which each takes effect
  between its arrival and its answer, such that every client was sent what one list of rooms answers
  to its commands in this order (short of one answer in the making), no command is lost or
  handled twice, and the table holds the rooms of that list whenever nobody has the mutex.\<close>

theorem threads_share_one_list:
  assumes "threads_run pid threads_start es s"
  shows "(\<forall>fd. \<exists>busy. answers_for pid fd (handled es) = sent_to fd s @ busy \<and>
       length busy = (if inside (th_phase s fd) \<or> ready (th_phase s fd) \<noteq> [] then 1 else 0)) \<and>
    (\<forall>fd. asked fd es = commands_from fd (handled es) @ waiting (th_phase s fd)) \<and>
    (th_owner s = None \<longrightarrow> live (th_globals s) = rooms_after pid (handled es))"
proof -
  have inv: "owner_inv s" "table_to_be pid es s" "clients_inv pid es s"
    using threads_run_inv [OF assms] by (simp_all add: threads_inv_def)
  have "\<exists>busy. answers_for pid fd (handled es) = sent_to fd s @ busy \<and>
      length busy = (if inside (th_phase s fd) \<or> ready (th_phase s fd) \<noteq> [] then 1 else 0)" for fd
  proof (cases "inside (th_phase s fd)")
    case True
    then have "th_owner s = Some (Client_Thread fd)" using owner_invD(1) [OF inv(1)] by simp
    then show ?thesis using inv(2) True by (auto simp: table_to_be_def)
  next
    case False
    then have "th_owner s \<noteq> Some (Client_Thread fd)" using owner_invD(1) [OF inv(1)] by simp
    then have "answers_for pid fd (handled es) = sent_to fd s @ ready (th_phase s fd)"
      using inv(3) by (simp add: clients_inv_def)
    then show ?thesis using False by (cases "th_phase s fd") auto
  qed
  then show ?thesis using inv(2,3) by (auto simp: table_to_be_def clients_inv_def)
qed


text \<open>Two clients: one in its critical section, the other at the lock.\<close>

definition quarrel :: "thread_event list" where
  "quarrel = [M_Check, M_Accept 5, M_Check, M_Accept 6, C_Check 5, C_Check 6, C_Recv 5 ''CREATE a 5'',
     C_Recv 6 ''SHOW'', C_Lock 5 ''CREATE a 5'', C_Turn 5, C_Turn 5, C_Turn 5]"

definition settled :: "thread_event list" where
  "settled = quarrel @ replicate 5 (C_Turn 5) @ [C_Unlock 5, C_Send 5 True]"


theorem threads_share_one_list_witness:
  "\<exists>s. threads_run 7 threads_start settled s \<and> sent_to 5 s = [(0, ''OK Room '' @ quoted ''a'' @ '' created with size 5'')] \<and>
     live (th_globals s) = rooms_after 7 [(5, ''CREATE a 5'')] \<and>
     sent_to 5 s = answers_for 7 5 [(5, ''CREATE a 5'')]"
proof -
  let ?text = "''OK Room '' @ quoted ''a'' @ '' created with size 5''"
  have "map_option (\<lambda>s. (sent_to 5 s, th_owner s, th_phase s 5)) (run_events (next_threads 7) threads_start settled) =
      Some ([(0, ?text)], None, Head)"
    by code_simp
  then obtain s where s: "run_events (next_threads 7) threads_start settled = Some s" "sent_to 5 s = [(0, ?text)]"
      "th_owner s = None" "th_phase s 5 = Head"
    by auto
  have order: "handled settled = [(5, ''CREATE a 5'')]" by code_simp
  have run: "threads_run 7 threads_start settled s" by (rule run_threads_run [OF s(1)])
  note shared = threads_share_one_list [OF run, unfolded order]
  have "answers_for 7 5 [(5, ''CREATE a 5'')] = sent_to 5 s"
    using spec [OF conjunct1 [OF shared], of 5] s(4) by auto
  then show ?thesis using shared run s(2,3) by auto
qed

text \<open>C15. \<open>main\<close> destroys the mutex of the rooms without waiting for the threads of its clients: a daemon
  that is told to stop can destroy it while one client is in its critical section, and another
  client goes on to lock a mutex that is no more.\<close>

theorem cleanup_destroys_mutex_in_use:
  "\<exists>es s. threads_run 7 threads_start es s \<and> mutex_destroyed s \<and>
     th_owner s = Some (Client_Thread 5) \<and> th_phase s 6 = Wanting ''STOP a''"
proof -
  let ?es = "[M_Check, M_Accept 5, M_Check, M_Accept 6, C_Check 5, C_Check 6, A_Signal SIGTERM, M_Check, M_Lock,
     M_Unlock, C_Recv 5 ''START a'', C_Lock 5 ''START a'', M_Destroy, C_Recv 6 ''STOP a'']"
  have "map_option (\<lambda>s. (mutex_destroyed s, th_owner s, th_phase s 6)) (run_events (next_threads 7) threads_start ?es) =
      Some (True, Some (Client_Thread 5), Wanting ''STOP a'')"
    by code_simp
  then obtain s where "run_events (next_threads 7) threads_start ?es = Some s" "mutex_destroyed s"
      "th_owner s = Some (Client_Thread 5)" "th_phase s 6 = Wanting ''STOP a''"
    by auto
  then show ?thesis using run_threads_run by blast
qed

end
