(* ===== verification/Client.thy ===== *)
theory Client
  imports CLib
begin

text \<open>
  The command-line client, \<^verbatim>\<open>src/03-communication/client\<close>: the argument parser and the
  validation of \<^verbatim>\<open>command_parser.c\<close>, the request and the response of
  \<^verbatim>\<open>socket_client.c\<close>, and \<^verbatim>\<open>main\<close>.

  The results of the socket calls are inputs. What the program does is a list of calls; \<open>printed\<close>
  gives the text that each of them prints.
\<close>

section \<open>Commands\<close>

datatype command_type =
  CMD_HELP | CMD_CREATE | CMD_START | CMD_STOP | CMD_SHOW | CMD_EXIT | CMD_UNKNOWN

record command =
  c_type :: command_type
  c_room_name :: string
  c_room_size :: int
  c_args :: "string list"
  c_arg_count :: int

definition MAX_ARGS :: nat where "MAX_ARGS = 10"

definition zero_command :: command where
  "zero_command = \<lparr>c_type = CMD_HELP, c_room_name = [], c_room_size = 0,
                   c_args = replicate MAX_ARGS [], c_arg_count = 0\<rparr>"

fun copy_args :: "nat \<Rightarrow> string list \<Rightarrow> string list \<Rightarrow> string list" where
  "copy_args i [] args = args"
| "copy_args i (a # as) args =
     (if i < MAX_ARGS then copy_args (Suc i) as (args[i := strncpy_c 63 a]) else args)"

definition with_name :: "string list \<Rightarrow> command \<Rightarrow> command" where
  "with_name argv cmd =
     (if length argv \<ge> 3 then cmd\<lparr>c_room_name := strncpy_c 63 (argv ! 2)\<rparr> else cmd)"

definition parse_verb :: "string list \<Rightarrow> command \<Rightarrow> command" where
  "parse_verb argv cmd =
     (let verb = argv ! 1
      in if verb = ''help'' then cmd\<lparr>c_type := CMD_HELP\<rparr>
         else if verb = ''create'' then
           if length argv \<ge> 4
           then cmd\<lparr>c_type := CMD_CREATE, c_room_name := strncpy_c 63 (argv ! 2),
                    c_room_size := atoi_c (argv ! 3)\<rparr>
           else cmd\<lparr>c_type := CMD_CREATE\<rparr>
         else if verb = ''start'' then with_name argv (cmd\<lparr>c_type := CMD_START\<rparr>)
         else if verb = ''stop'' then with_name argv (cmd\<lparr>c_type := CMD_STOP\<rparr>)
         else if verb = ''show'' then with_name argv (cmd\<lparr>c_type := CMD_SHOW\<rparr>)
         else if verb = ''exit'' then cmd\<lparr>c_type := CMD_EXIT\<rparr>
         else cmd)"

definition parse_command :: "string list \<Rightarrow> command option \<Rightarrow> command_type \<times> command option" where
  "parse_command argv cmd =
     (if cmd = None \<or> length argv < 2 then (CMD_UNKNOWN, cmd)
      else
        let cmd = zero_command\<lparr>c_type := CMD_UNKNOWN, c_arg_count := int (length argv) - 2\<rparr>;
            cmd = parse_verb argv cmd;
            cmd = cmd\<lparr>c_args := copy_args 0 (drop 2 argv) (c_args cmd)\<rparr>
        in (c_type cmd, Some cmd))"

definition validate_command :: "command option \<Rightarrow> int" where
  "validate_command cmd =
     (case cmd of
        None \<Rightarrow> -1
      | Some c \<Rightarrow>
          (case c_type c of
             CMD_CREATE \<Rightarrow>
               if length (c_room_name c) = 0 then -1
               else if c_room_size c \<le> 0 then -1
               else if c_room_size c > 10000 then -1
               else 0
           | CMD_START \<Rightarrow> if length (c_room_name c) = 0 then -1 else 0
           | CMD_STOP \<Rightarrow> if length (c_room_name c) = 0 then -1 else 0
           | CMD_SHOW \<Rightarrow> 0
           | CMD_HELP \<Rightarrow> 0
           | CMD_EXIT \<Rightarrow> 0
           | CMD_UNKNOWN \<Rightarrow> -1))"

section \<open>The request on the wire\<close>

definition CLIENT_BUFFER :: nat where "CLIENT_BUFFER = 1024"

definition command_line :: "command \<Rightarrow> string option" where
  "command_line c =
     (case c_type c of
        CMD_CREATE \<Rightarrow> Some (snprintf_c [] CLIENT_BUFFER
          (''CREATE '' @ c_room_name c @ '' '' @ show_int (c_room_size c)))
      | CMD_START \<Rightarrow> Some (snprintf_c [] CLIENT_BUFFER (''START '' @ c_room_name c))
      | CMD_STOP \<Rightarrow> Some (snprintf_c [] CLIENT_BUFFER (''STOP '' @ c_room_name c))
      | CMD_SHOW \<Rightarrow> Some (snprintf_c [] CLIENT_BUFFER (''SHOW '' @ c_room_name c))
      | CMD_EXIT \<Rightarrow> Some (snprintf_c [] CLIENT_BUFFER ''EXIT'')
      | _ \<Rightarrow> None)"

text \<open>The return value and the bytes given to \<open>send\<close>, whose result is \<open>sent\<close>.\<close>

definition client_send_command :: "int \<Rightarrow> command option \<Rightarrow> int \<Rightarrow> int \<times> string option" where
  "client_send_command sockfd cmd bytes_sent =
     (case cmd of
        None \<Rightarrow> (-1, None)
      | Some c \<Rightarrow>
          if sockfd < 0 then (-1, None)
          else (case command_line c of
                  None \<Rightarrow> (-1, None)
                | Some buffer \<Rightarrow> if bytes_sent < 0 then (-1, Some buffer) else (0, Some buffer)))"

section \<open>The response\<close>

record response =
  rs_status :: int
  rs_message :: string

definition parse_response :: "string \<Rightarrow> response" where
  "parse_response buffer =
     (if strncmp_eq buffer ''OK'' 2 then
        \<lparr>rs_status = 0,
         rs_message = (if length buffer > 3 then strncpy_c (CLIENT_BUFFER - 1) (drop 3 buffer)
                       else ''Command executed successfully'')\<rparr>
      else if strncmp_eq buffer ''ERROR'' 5 then
        \<lparr>rs_status = -1,
         rs_message = (if length buffer > 6 then strncpy_c (CLIENT_BUFFER - 1) (drop 6 buffer)
                       else ''Unknown error occurred'')\<rparr>
      else \<lparr>rs_status = -1, rs_message = strncpy_c (CLIENT_BUFFER - 1) buffer\<rparr>)"

text \<open>\<open>recv\<close> gives \<open>None\<close> (it failed), no bytes (the connection was closed) or at most 1023
  bytes of the answer.\<close>

definition client_receive_response ::
  "int \<Rightarrow> response option \<Rightarrow> char list option \<Rightarrow> int \<times> response option" where
  "client_receive_response sockfd resp recvd =
     (if sockfd < 0 \<or> resp = None then (-1, resp)
      else case recvd of
        None \<Rightarrow> (-1, Some \<lparr>rs_status = 0, rs_message = []\<rparr>)
      | Some bytes \<Rightarrow>
          if bytes = [] then (-1, Some \<lparr>rs_status = 0, rs_message = []\<rparr>)
          else (0, Some (parse_response (cstr (take (CLIENT_BUFFER - 1) bytes)))))"

section \<open>Connecting, disconnecting, main\<close>

datatype client_call =
    Connect string nat | Disconnect int | Send_Line string | Print response
  | Print_Usage | Print_Error string

definition print_usage :: string where
  "print_usage = concat (map (\<lambda>l. l @ [NL])
     [''Usage: ./client <command> [arguments]'', [], ''Commands:'',
      ''  help                     Show this help message'',
      ''  create <room_name> <size> Create a new room with specified size'',
      ''  start <room_name>        Start monitoring the specified room'',
      ''  stop <room_name>         Stop monitoring the specified room'',
      ''  show <room_name>         Show status of the specified room'',
      ''  exit                     Shutdown the daemon'', [], ''Examples:'',
      ''  ./client create cpu-room 1000'', ''  ./client start cpu-room'',
      ''  ./client show cpu-room'', ''  ./client stop cpu-room''])"

text \<open>The value of \<open>errno\<close> with its text; the text printed, and \<open>errno\<close> afterwards.\<close>

definition print_error :: "string \<Rightarrow> int \<times> string \<Rightarrow> string \<times> int" where
  "print_error msg = (\<lambda>(errno, err).
     (''Error: '' @ msg @ [NL] @ (if errno \<noteq> 0 then ''System error: '' @ err @ [NL] else []), 0))"

definition print_response :: "response \<Rightarrow> string" where
  "print_response resp = (if rs_status resp = 0 then ''OK: '' else ''ERROR: '') @ rs_message resp @ [NL]"

text \<open>The text on the standard output and on the standard error output.\<close>

fun printed :: "int \<times> string \<Rightarrow> client_call \<Rightarrow> string \<times> string" where
  "printed err (Print resp) = (print_response resp, [])"
| "printed err Print_Usage = (print_usage, [])"
| "printed err (Print_Error msg) = ([], fst (print_error msg err))"
| "printed err _ = ([], [])"

text \<open>\<open>client_connect\<close>: the results of \<open>socket\<close>, \<open>inet_pton\<close> and \<open>connect\<close>; the descriptor or
  -1, and the descriptors it closed on the way.\<close>

definition client_connect :: "int \<Rightarrow> int \<Rightarrow> int \<Rightarrow> int \<times> int list" where
  "client_connect sock pton_r connect_r =
     (if sock < 0 then (-1, [])
      else if pton_r \<le> 0 then (-1, [sock])
      else if connect_r < 0 then (-1, [sock])
      else (sock, []))"

definition client_disconnect :: "int \<Rightarrow> client_call list" where
  "client_disconnect sockfd = (if sockfd \<ge> 0 then [Disconnect sockfd] else [])"

text \<open>
  \<open>main\<close>: the exit status and the calls it makes. \<open>cmd0\<close> and \<open>resp0\<close> are the uninitialised
  locals, \<open>sockfd\<close> what \<open>client_connect\<close> returned.
\<close>

definition client_main ::
  "command \<Rightarrow> response \<Rightarrow> string list \<Rightarrow> int \<Rightarrow> int \<Rightarrow> char list option \<Rightarrow> int \<times> client_call list" where
  "client_main cmd0 resp0 argv sockfd bytes_sent recvd =
     (case parse_command argv (Some cmd0) of (ty, cmd) \<Rightarrow>
        if ty = CMD_UNKNOWN then (1, [Print_Usage])
        else if ty = CMD_HELP then (0, [Print_Usage])
        else if validate_command cmd \<noteq> 0 then
          (1, [Print_Error ''Invalid command arguments'', Print_Usage])
        else if sockfd < 0 then (1, [Print_Error ''Failed to connect to daemon''])
        else
          (case client_send_command sockfd cmd bytes_sent of (r, line) \<Rightarrow>
             let calls = (case line of None \<Rightarrow> [] | Some l \<Rightarrow> [Send_Line l])
             in if r < 0 then (1, calls @ [Print_Error ''Failed to send command''] @ client_disconnect sockfd)
                else
                  (case client_receive_response sockfd (Some resp0) recvd of (r', resp) \<Rightarrow>
                     if r' < 0 then
                       (1, calls @ [Print_Error ''Failed to receive response''] @ client_disconnect sockfd)
                     else
                       (case resp of
                          None \<Rightarrow> (1, calls @ client_disconnect sockfd)
                        | Some rs \<Rightarrow>
                            ((if rs_status rs = 0 then 0 else 1),
                             calls @ [Print rs] @ client_disconnect sockfd)))))"

section \<open>What the parser guarantees\<close>

text \<open>The shape of every command the parser produces: its arrays are in bounds.\<close>

definition command_wf :: "command \<Rightarrow> bool" where
  "command_wf c \<longleftrightarrow>
     length (c_room_name c) \<le> 63 \<and> length (c_args c) = MAX_ARGS \<and>
     (\<forall>a \<in> set (c_args c). length a \<le> 63) \<and> int32 (c_room_size c)"

lemma copy_args_wf:
  "length args = MAX_ARGS \<Longrightarrow> \<forall>a \<in> set args. length a \<le> 63 \<Longrightarrow>
     length (copy_args i as args) = MAX_ARGS \<and> (\<forall>a \<in> set (copy_args i as args). length a \<le> 63)"
proof (induction i as args rule: copy_args.induct)
  case (2 i a as args)
  have "\<forall>b \<in> set (args[i := strncpy_c 63 a]). length b \<le> 63"
    using "2.prems"(2) set_update_subset_insert [of args i "strncpy_c 63 a"]
    by (auto simp: strncpy_c_def)
  with 2 show ?case by simp
qed simp

lemma with_name_wf: "command_wf c \<Longrightarrow> command_wf (with_name argv c)"
  by (simp add: with_name_def command_wf_def strncpy_c_def)

lemma zero_command_wf: "command_wf (zero_command\<lparr>c_type := ty, c_arg_count := n\<rparr>)"
  by (simp add: command_wf_def zero_command_def int32_def)

lemma command_wf_updates:
  "command_wf c \<Longrightarrow> command_wf (c\<lparr>c_type := ty\<rparr>)"
  "command_wf c \<Longrightarrow>
     command_wf (c\<lparr>c_type := ty, c_room_name := strncpy_c 63 s, c_room_size := atoi_c t\<rparr>)"
  "command_wf c \<Longrightarrow> command_wf (c\<lparr>c_args := copy_args i as (c_args c)\<rparr>)"
  using copy_args_wf [of "c_args c" i as]
  by (simp_all add: command_wf_def strncpy_c_def atoi_int32)

lemma parse_verb_wf: "command_wf c \<Longrightarrow> command_wf (parse_verb argv c)"
  by (simp add: parse_verb_def Let_def command_wf_updates with_name_wf)

lemma parse_command_wf:
  "2 \<le> length argv \<Longrightarrow> snd (parse_command argv (Some c0)) = Some c \<Longrightarrow> command_wf c"
  by (auto simp: parse_command_def Let_def intro!: command_wf_updates(3) parse_verb_wf zero_command_wf)

lemma parse_command_type:
  "2 \<le> length argv \<Longrightarrow> parse_command argv (Some c0) = (ty, cmd) \<Longrightarrow>
     \<exists>c. cmd = Some c \<and> c_type c = ty \<and> command_wf c"
  using parse_command_wf [of argv c0] by (auto simp: parse_command_def Let_def)

text \<open>A well-formed command always fits the 1024-byte request buffer.\<close>

lemma show_int_length:
  assumes "int32 i"
  shows "length (show_int i) \<le> 11"
proof -
  have "nat \<bar>i\<bar> < 10 ^ Suc 9" using assms by (cases "i < 0") (simp_all add: int32_def nat_less_iff)
  then have "length (show_nat (nat \<bar>i\<bar>)) \<le> 10" using show_nat_length [of "nat \<bar>i\<bar>" 9] by simp
  then show ?thesis by (simp add: show_int_def abs_if split: if_splits)
qed

lemma command_line_eq:
  assumes "command_wf c"
  shows "command_line c =
    (case c_type c of
       CMD_CREATE \<Rightarrow> Some (''CREATE '' @ c_room_name c @ '' '' @ show_int (c_room_size c))
     | CMD_START \<Rightarrow> Some (''START '' @ c_room_name c)
     | CMD_STOP \<Rightarrow> Some (''STOP '' @ c_room_name c)
     | CMD_SHOW \<Rightarrow> Some (''SHOW '' @ c_room_name c)
     | CMD_EXIT \<Rightarrow> Some ''EXIT''
     | _ \<Rightarrow> None)"
  using assms show_int_length [of "c_room_size c"]
  by (auto simp: command_line_def command_wf_def CLIENT_BUFFER_def snprintf_fits
      split: command_type.splits)

end
