(* ===== verification/Session.thy ===== *)
theory Session
  imports DaemonServer Client
begin

text \<open>
  The client and the daemon together: what the client writes is what the daemon reads, and
  what one run of the client does to the daemon's table and tells its user.

  \<open>wire\<close> interprets the interface \<open>codec\<close> on the two ends of the connection: the client's
  \<open>command_line\<close> is undone by the daemon's \<open>parse_request\<close> for every command whose room name
  is a word. \<open>session\<close> is one run of the client over a connection that works.
\<close>

section \<open>Strings without NUL\<close>

lemma c_string_simps [simp]:
  "c_string []" "c_string (c # s) \<longleftrightarrow> c \<noteq> NUL \<and> c_string s"
  "c_string (s @ t) \<longleftrightarrow> c_string s \<and> c_string t"
  by (auto simp: c_string_def)

lemma c_string_take: "c_string s \<Longrightarrow> c_string (take n s)"
  by (auto simp: c_string_def dest: in_set_takeD)

lemma c_string_word: "is_word w \<Longrightarrow> c_string w"
  by (auto simp: is_word_def c_string_def)

lemma c_string_show_int: "c_string (show_int i)"
  by (rule c_string_word [OF show_int_word])

lemma c_string_status: "c_string (room_status_string s)"
  by (cases s) simp_all

lemma c_string_quoted: "c_string (quoted s) = c_string s"
  by (simp add: quoted_def)

lemmas c_strings = c_string_word c_string_show_int c_string_status c_string_quoted

section \<open>From the client's command to the daemon's request\<close>

definition request_of :: "command \<Rightarrow> request" where
  "request_of c =
     (case c_type c of
        CMD_CREATE \<Rightarrow> Create_Room (c_room_name c) (c_room_size c)
      | CMD_START \<Rightarrow> Start_Room (c_room_name c)
      | CMD_STOP \<Rightarrow> Stop_Room (c_room_name c)
      | CMD_SHOW \<Rightarrow> if c_room_name c = [] then Show_All else Show_Room (c_room_name c)
      | CMD_EXIT \<Rightarrow> Exit_Daemon
      | _ \<Rightarrow> Bad [])"

definition command_ok :: "command \<Rightarrow> bool" where
  "command_ok c \<longleftrightarrow> command_wf c \<and>
     (case c_type c of
        CMD_CREATE \<Rightarrow> is_word (c_room_name c)
      | CMD_START \<Rightarrow> is_word (c_room_name c)
      | CMD_STOP \<Rightarrow> is_word (c_room_name c)
      | CMD_SHOW \<Rightarrow> c_room_name c = [] \<or> is_word (c_room_name c)
      | CMD_EXIT \<Rightarrow> True
      | _ \<Rightarrow> False)"

lemma is_word_literal:
  "is_word ''CREATE''" "is_word ''START''" "is_word ''STOP''" "is_word ''SHOW''" "is_word ''EXIT''"
  by (simp_all add: is_word_def isspace_c_def)

lemma isspace_blank: "isspace_c CHR '' ''"
  by (simp add: isspace_c_def)

lemma scan_verb_only:
  assumes "is_word verb" and "length verb \<le> 63" and "\<forall>c \<in> set ws. isspace_c c"
  shows "scan_command (verb @ ws) = (1, verb, [], 0)"
proof -
  have "ws = [] \<or> isspace_c (hd ws)" using assms(3) by (cases ws) auto
  then have "scan_s 63 (verb @ ws) = Some (verb, ws)"
    using scan_s_word [OF assms(1,2), of ws "[]"] by simp
  then show ?thesis by (simp add: scan_command_def scan_s_blank [OF assms(3)])
qed

lemma scan_verb_name:
  assumes "is_word verb" and "length verb \<le> 63" and "is_word name" and "length name \<le> 63"
  shows "scan_command (verb @ '' '' @ name) = (2, verb, name, 0)"
proof -
  have "scan_s 63 (verb @ '' '' @ name) = Some (verb, '' '' @ name)"
    using scan_s_word [OF assms(1,2), of "'' '' @ name" "[]"] by (simp add: isspace_blank)
  moreover have "scan_s 63 ('' '' @ name) = Some (name, [])"
    using scan_s_word [OF assms(3,4), of "[]" "'' ''"] by (simp add: isspace_blank)
  moreover have "scan_d [] = None" by (simp add: scan_d_def strtol_c_def scan_sign_def)
  ultimately show ?thesis by (simp add: scan_command_def)
qed

lemma scan_verb_name_size:
  assumes "is_word verb" and "length verb \<le> 63" and "is_word name" and "length name \<le> 63"
    and "int32 n" and "rest = [] \<or> isspace_c (hd rest)"
  shows "scan_command (verb @ '' '' @ name @ '' '' @ show_int n @ rest) = (3, verb, name, n)"
proof -
  let ?num = "'' '' @ show_int n @ rest"
  have "scan_s 63 (verb @ '' '' @ name @ ?num) = Some (verb, '' '' @ name @ ?num)"
    using scan_s_word [OF assms(1,2), of "'' '' @ name @ ?num" "[]"] by (simp add: isspace_blank)
  moreover have "scan_s 63 ('' '' @ name @ ?num) = Some (name, ?num)"
    using scan_s_word [OF assms(3,4), of ?num "'' ''"] by (simp add: isspace_blank)
  moreover have "rest = [] \<or> \<not> isdigit_c (hd rest)" using assms(6) isdigit_not_space by blast
  then have "scan_d ?num = Some (n, rest)"
    using strtol_show_int [OF assms(5), of rest "'' ''"]
    by (simp add: scan_d_def isspace_blank int_of_long_id [OF assms(5)])
  ultimately show ?thesis by (simp add: scan_command_def)
qed

lemma parse_command_line:
  assumes "command_ok c"
  shows "map_option parse_request (command_line c) = Some (request_of c)"
proof -
  have wf: "command_wf c" and len: "length (c_room_name c) \<le> 63" "int32 (c_room_size c)"
    using assms by (simp_all add: command_ok_def command_wf_def)
  note line = command_line_eq [OF wf]
  show ?thesis
  proof (cases "c_type c")
    case CMD_CREATE
    then have "is_word (c_room_name c)" using assms by (simp add: command_ok_def)
    with CMD_CREATE show ?thesis
      using scan_verb_name_size [OF is_word_literal(1) _ _ len, of "[]"]
      by (simp add: line request_of_def parse_request_def)
  next
    case CMD_START
    then have "is_word (c_room_name c)" using assms by (simp add: command_ok_def)
    with CMD_START show ?thesis
      using scan_verb_name [OF is_word_literal(2) _ _ len(1)]
      by (simp add: line request_of_def parse_request_def)
  next
    case CMD_STOP
    then have "is_word (c_room_name c)" using assms by (simp add: command_ok_def)
    with CMD_STOP show ?thesis
      using scan_verb_name [OF is_word_literal(3) _ _ len(1)]
      by (simp add: line request_of_def parse_request_def)
  next
    case CMD_SHOW
    show ?thesis
    proof (cases "c_room_name c = []")
      case True
      with CMD_SHOW show ?thesis
        using scan_verb_only [OF is_word_literal(4), of "'' ''"]
        by (simp add: line request_of_def parse_request_def isspace_blank)
    next
      case False
      then have "is_word (c_room_name c)" using assms CMD_SHOW by (simp add: command_ok_def)
      with CMD_SHOW False show ?thesis
        using scan_verb_name [OF is_word_literal(4) _ _ len(1)]
        by (simp add: line request_of_def parse_request_def)
    qed
  next
    case CMD_EXIT
    then show ?thesis
      using scan_verb_only [OF is_word_literal(5), of "[]"]
      by (simp add: line request_of_def parse_request_def)
  qed (use assms in \<open>simp_all add: command_ok_def\<close>)
qed

interpretation wire: codec command_line "map_option parse_request" "\<lambda>c. Some (request_of c)" command_ok
  by unfold_locales (rule parse_command_line)

section \<open>One run of the client\<close>

definition client_request :: "command \<Rightarrow> string list \<Rightarrow> command option" where
  "client_request cmd0 argv =
     (case parse_command argv (Some cmd0) of (ty, cmd) \<Rightarrow>
        if ty = CMD_UNKNOWN \<or> ty = CMD_HELP \<or> validate_command cmd \<noteq> 0 then None else cmd)"

definition session ::
  "int \<Rightarrow> command \<Rightarrow> response \<Rightarrow> string list \<Rightarrow> int \<Rightarrow> daemon \<Rightarrow> (int \<times> client_call list) \<times> daemon" where
  "session pid cmd0 resp0 argv fd st =
     (case Option.bind (client_request cmd0 argv) command_line of
        None \<Rightarrow> (client_main cmd0 resp0 argv fd 0 None, st)
      | Some line \<Rightarrow>
          (case handle_command pid (Some (cstr (received line))) (Some []) BUFFER_SIZE st of
             Inr (r, Some answer, st') \<Rightarrow>
               (client_main cmd0 resp0 argv fd (int (length line)) (Some answer), st')
           | _ \<Rightarrow> (client_main cmd0 resp0 argv fd (int (length line)) None, st)))"

lemma c_string_concat: "c_string (concat xs) \<longleftrightarrow> (\<forall>x \<in> set xs. c_string x)"
  by (auto simp: c_string_def)

lemma room_line_c_string: "room_wf pid r \<Longrightarrow> c_string (room_line r)"
  by (simp add: room_line_def room_wf_def c_strings)

lemma room_list_c_string: "daemon_inv pid st \<Longrightarrow> c_string (room_list st)"
  by (auto simp: room_list_def rooms_header_def daemon_inv_def live_def c_string_concat
      intro: room_line_c_string)

lemma lookup_wf:
  assumes "daemon_inv pid st" and "lookup st name = Some r"
  shows "room_wf pid r" and "r_name r = name"
  using assms lookup_Some [of st name r] by (auto simp: daemon_inv_def)

lemma serve_c_string:
  assumes "daemon_inv pid st" and "request_ok q" and "case q of Bad msg \<Rightarrow> c_string msg | _ \<Rightarrow> True"
  shows "c_string (fst (snd (serve pid used (room_list st) (lookup st) q)))"
  using assms lookup_wf [OF assms(1)] room_list_c_string [OF assms(1)]
  by (cases q)
    (auto simp: request_ok_def c_strings not_found_def describe_def room_wf_def split: option.splits)

lemma serve_nonempty:
  assumes "\<And>msg. q = Bad msg \<Longrightarrow> msg \<noteq> []"
  shows "fst (snd (serve pid used (room_list st) m q)) \<noteq> []"
  using assms by (cases q)
    (auto simp: not_found_def describe_def room_list_def rooms_header_def split: option.splits)

lemma command_ok_request: "command_ok c \<Longrightarrow> request_ok (request_of c)"
  by (auto simp: command_ok_def request_of_def request_ok_def command_wf_def name_fits_def
      MAX_ROOM_NAME_def split: command_type.splits)

lemma command_ok_not_bad: "command_ok c \<Longrightarrow> request_of c \<noteq> Bad msg"
  by (auto simp: command_ok_def request_of_def split: command_type.splits)

lemma command_line_short:
  assumes "command_ok c" and "command_line c = Some line"
  shows "received line = line" and "c_string line"
proof -
  have wf: "command_wf c" using assms(1) by (simp add: command_ok_def)
  have "length line \<le> 1023"
    using assms(2) wf show_int_length [of "c_room_size c"]
    by (auto simp: command_line_eq [OF wf] command_wf_def split: command_type.splits)
  then show "received line = line" by (simp add: received_def BUFFER_SIZE_def)
  show "c_string line"
    using assms by (auto simp: command_line_eq [OF wf] command_ok_def c_strings
        split: command_type.splits)
qed

text \<open>
  The session of a well-formed command: the daemon serves the request the user meant, and
  the client reports exactly that answer.
\<close>

lemma client_main_reply:
  assumes "client_request cmd0 argv = Some c" and "command_ok c" and "0 \<le> fd"
    and "command_line c = Some line" and "answer \<noteq> []"
  shows "client_main cmd0 resp0 argv fd (int (length line)) (Some answer) =
    (let rs = parse_response (cstr (take (CLIENT_BUFFER - 1) answer))
     in ((if rs_status rs = 0 then 0 else 1), [Send_Line line, Print rs, Disconnect fd]))"
proof -
  obtain ty where "parse_command argv (Some cmd0) = (ty, Some c)" and "ty \<noteq> CMD_UNKNOWN"
    and "ty \<noteq> CMD_HELP" and "validate_command (Some c) = 0"
    using assms(1) by (auto simp: client_request_def split: prod.splits if_splits)
  with assms show ?thesis
    by (simp add: client_main_def client_send_command_def client_receive_response_def
        client_disconnect_def Let_def)
qed

lemma session_serves:
  assumes "daemon_inv pid st" and "client_request cmd0 argv = Some c" and "command_ok c" and "0 \<le> fd"
    and "serve pid (room_count st) (room_list st) (lookup st) (request_of c) = (r, answer, m)"
  shows "\<exists>line st'. command_line c = Some line \<and>
    session pid cmd0 resp0 argv fd st =
      ((let rs = parse_response (take (BUFFER_SIZE - 1) answer)
        in ((if rs_status rs = 0 then 0 else 1), [Send_Line line, Print rs, Disconnect fd])), st') \<and>
    lookup st' = m \<and> daemon_inv pid st'"
proof -
  obtain line where line: "command_line c = Some line" and req: "parse_request line = request_of c"
    using parse_command_line [OF assms(3)] by auto
  note short = command_line_short [OF assms(3) line]
  have "answer \<noteq> []"
    using serve_nonempty [of "request_of c" pid "room_count st" st "lookup st"] assms(5)
      command_ok_not_bad [OF assms(3)] by simp
  moreover have c: "c_string answer"
    using serve_c_string [OF assms(1) command_ok_request [OF assms(3)], of "room_count st"] assms(5)
      command_ok_not_bad [OF assms(3)] by (simp split: request.splits)
  ultimately have ans: "take (BUFFER_SIZE - 1) answer \<noteq> []"
    "cstr (take (CLIENT_BUFFER - 1) (take (BUFFER_SIZE - 1) answer)) = take (BUFFER_SIZE - 1) answer"
    by (simp_all add: BUFFER_SIZE_def CLIENT_BUFFER_def c_string_take)
  have "serves (handle_command pid (Some line) (Some []) BUFFER_SIZE st) BUFFER_SIZE st (r, answer, m)"
    using handle_command_total [OF assms(1) short(2), of BUFFER_SIZE "[]"] req assms(5)
    by (simp add: BUFFER_SIZE_def)
  then obtain st' where st': "handle_command pid (Some line) (Some []) BUFFER_SIZE st =
      Inr (r, Some (take (BUFFER_SIZE - 1) answer), st')" "lookup st' = m"
    by (auto simp: serves_def)
  moreover have "daemon_inv pid st'"
    using handle_command_inv [OF assms(1) short(2) _ _ st'(1)] by (simp add: BUFFER_SIZE_def)
  ultimately show ?thesis
    using client_main_reply [OF assms(2-4) line ans(1), of resp0] line short assms(2)
    by (simp add: session_def ans(2) del: take_take One_nat_def)
qed

lemma session_reports_main:
  assumes "client_request cmd0 argv = Some c" and "command_ok c" and "0 \<le> fd"
    and "daemon_inv pid st"
  shows "case serve pid (room_count st) (room_list st) (lookup st) (request_of c) of
    (r, answer, m) \<Rightarrow>
      \<exists>line st'. command_line c = Some line \<and>
        session pid cmd0 resp0 argv fd st =
          (((if take 2 answer = ''OK'' then 0 else 1),
            [Send_Line line, Print (parse_response (take (BUFFER_SIZE - 1) answer)), Disconnect fd]),
           st') \<and>
        lookup st' = m \<and> daemon_inv pid st'"
proof -
  have "(rs_status (parse_response (take (BUFFER_SIZE - 1) a)) = 0) = (take 2 a = ''OK'')" for a
    by (simp add: parse_response_def strncmp_eq_def BUFFER_SIZE_def)
  then show ?thesis
    using session_serves [OF assms(4,1-3), of "fst (serve pid (room_count st) (room_list st) (lookup st) (request_of c))"]
    by (auto simp: Let_def split: prod.splits)
qed

lemma create_request:
  assumes "is_word name" and "length name \<le> 63" and "1 \<le> n" and "n \<le> 10000"
  shows "\<exists>c. client_request cmd0 [prog, ''create'', name, show_int n] = Some c \<and> command_ok c \<and>
    request_of c = Create_Room name n"
proof -
  have n: "atoi_c (show_int n) = n" using assms(3,4) by (intro atoi_show_int) (simp add: int32_def)
  obtain c where c: "parse_command [prog, ''create'', name, show_int n] (Some cmd0) = (CMD_CREATE, Some c)"
    and f: "c_type c = CMD_CREATE" "c_room_name c = name" "c_room_size c = n"
    using assms(2) n by (simp add: parse_command_def parse_verb_def Let_def strncpy_c_def)
  have "command_wf c" using parse_command_type [OF _ c] by simp
  then show ?thesis
    using c f assms
    by (auto simp: client_request_def command_ok_def request_of_def validate_command_def is_word_def)
qed

section \<open>Properties\<close>

text \<open>Every command the client's parser makes from its arguments has its arrays in bounds
  (a name of at most 63 characters, ten arguments of at most 63, a 32-bit size), and the request
  written for it is the whole text, never cut by the 1024-byte buffer.\<close>

theorem parsed_commands_fit:
  assumes "parse_command argv (Some c0) = (ty, Some c)" and "2 \<le> length argv"
  shows "command_wf c \<and> c_type c = ty \<and>
    command_line c =
      (case ty of
         CMD_CREATE \<Rightarrow> Some (''CREATE '' @ c_room_name c @ '' '' @ show_int (c_room_size c))
       | CMD_START \<Rightarrow> Some (''START '' @ c_room_name c)
       | CMD_STOP \<Rightarrow> Some (''STOP '' @ c_room_name c)
       | CMD_SHOW \<Rightarrow> Some (''SHOW '' @ c_room_name c)
       | CMD_EXIT \<Rightarrow> Some ''EXIT''
       | _ \<Rightarrow> None)"
  using parse_command_type [OF assms(2,1)] command_line_eq [of c] by auto

text \<open>The command of \<^verbatim>\<open>client create room 10\<close>.\<close>

definition example_command :: command where
  "example_command =
     \<lparr>c_type = CMD_CREATE, c_room_name = ''room'', c_room_size = 10,
      c_args = [''room'', ''10'', [], [], [], [], [], [], [], []], c_arg_count = 2\<rparr>"

lemma example_parsed:
  "parse_command [''client'', ''create'', ''room'', ''10''] (Some zero_command) =
     (CMD_CREATE, Some example_command)"
  by code_simp

lemma example_ok: "command_ok example_command"
  by (simp add: command_ok_def command_wf_def example_command_def is_word_def isspace_c_def
      int32_def MAX_ARGS_def)

theorem parsed_commands_fit_witness:
  "command_wf example_command \<and>
   command_line example_command = Some (''CREATE '' @ ''room'' @ '' '' @ show_int 10)"
  using parsed_commands_fit [OF example_parsed] by (simp add: example_command_def)

text \<open>C12. What the client writes the daemon reads: for every create, start, stop, show and exit
  command whose room name is a word, the daemon's parser finds in the client's request line
  exactly the verb, the name and the size the client put there.\<close>

theorem request_round_trip:
  assumes "command_ok c"
  shows "\<exists>line. command_line c = Some line \<and> parse_request line = request_of c"
  using wire.dec_enc [OF assms] by auto

theorem request_round_trip_witness:
  "\<exists>line. command_line example_command = Some line \<and> parse_request line = Create_Room ''room'' 10"
  using request_round_trip [OF example_ok] by (simp add: example_command_def request_of_def)

text \<open>A room name with a blank is not kept together: the client accepts it and its request is
  read by the daemon as a shorter name and, when a number follows the blank, as that number for
  the size instead of the size the user gave.\<close>

theorem blank_in_name_splits:
  assumes "command_wf c" and "c_type c = CMD_CREATE" and "c_room_name c = a @ '' '' @ show_int k"
    and "is_word a" and "int32 k" and "1 \<le> c_room_size c" and "c_room_size c \<le> 10000"
  shows "validate_command (Some c) = 0 \<and>
    map_option parse_request (command_line c) = Some (Create_Room a k)"
proof -
  let ?rest = "'' '' @ show_int (c_room_size c)"
  have "length a \<le> 63" using assms(1,3) by (simp add: command_wf_def)
  then have "scan_command (''CREATE'' @ '' '' @ a @ '' '' @ show_int k @ ?rest) = (3, ''CREATE'', a, k)"
    using scan_verb_name_size [OF is_word_literal(1) _ assms(4) _ assms(5), of ?rest]
    by (simp add: isspace_blank)
  then show ?thesis
    using assms(2,3,6,7)
    by (simp add: command_line_eq [OF assms(1)] parse_request_def validate_command_def)
qed

theorem blank_in_name_splits_witness:
  "map_option parse_request (command_line (example_command\<lparr>c_room_name := ''a 5'', c_room_size := 100\<rparr>)) =
     Some (Create_Room ''a'' 5)"
proof -
  let ?c = "example_command\<lparr>c_room_name := ''a 5'', c_room_size := 100\<rparr>"
  have five: "show_int 5 = ''5''" by (simp add: show_int_def show_nat_digit digit_chars)
  show ?thesis
    by (rule blank_in_name_splits [THEN conjunct2])
      (use example_ok in \<open>simp_all add: command_ok_def command_wf_def example_command_def five
        is_word_def isspace_c_def int32_def\<close>)
qed

text \<open>C2. One run of the client with a command whose room name is a word, against the daemon in
  any reachable state: the client sends one line, the daemon serves exactly the request the
  user meant, the client prints the daemon's answer without its OK or ERROR word and exits with
  status 0 exactly when the answer was an OK, and the connection is closed.\<close>

theorem session_reports_service:
  assumes "client_request cmd0 argv = Some c" and "command_ok c" and "0 \<le> fd"
    and "daemon_inv pid st"
  shows "case serve pid (room_count st) (room_list st) (lookup st) (request_of c) of
    (r, answer, m) \<Rightarrow>
      \<exists>line st'. command_line c = Some line \<and>
        session pid cmd0 resp0 argv fd st =
          (((if take 2 answer = ''OK'' then 0 else 1),
            [Send_Line line, Print (parse_response (take (BUFFER_SIZE - 1) answer)), Disconnect fd]),
           st') \<and>
        lookup st' = m \<and> daemon_inv pid st'"
  by (rule session_reports_main [OF assms])

lemma example_request:
  "client_request zero_command [''client'', ''create'', ''room'', ''10''] = Some example_command"
  by (simp add: client_request_def example_parsed) (simp add: example_command_def validate_command_def)

theorem session_reports_service_witness:
  "\<exists>line st'. session 7 zero_command \<lparr>rs_status = 0, rs_message = []\<rparr>
       [''client'', ''create'', ''room'', ''10''] 3 daemon_start =
     ((0, [Send_Line line,
           Print (parse_response (''OK Room '' @ quoted ''room'' @ '' created with size '' @ show_int 10)),
           Disconnect 3]), st') \<and>
     lookup st' = [''room'' \<mapsto> new_room ''room'' 10]"
proof -
  have "lookup daemon_start = (\<lambda>_. None)"
    by (intro ext) (simp add: lookup_def find_room_def daemon_start_def)
  moreover have "length (show_int 10) = 2" by code_simp
  ultimately show ?thesis
    using session_reports_service [OF example_request example_ok _ daemon_inv_start, of 3 7
        "\<lparr>rs_status = 0, rs_message = []\<rparr>"]
    by (auto simp: example_command_def request_of_def daemon_start_def MAX_ROOMS_def BUFFER_SIZE_def
        quoted_def)
qed

text \<open>Creating a room from the command line, with any name of at most 63 characters without
  blanks and any size from 1 to 10000 in decimal: if the daemon has no room of that name and a
  free slot, the client exits with 0 and the daemon has exactly one more room, of that name and
  size, in the created state; otherwise the client exits with 1 and the daemon's rooms are
  unchanged.\<close>

theorem create_from_command_line:
  assumes "is_word name" and "length name \<le> 63" and "1 \<le> n" and "n \<le> 10000"
    and "0 \<le> fd" and "daemon_inv pid st"
  shows "case session pid cmd0 resp0 [prog, ''create'', name, show_int n] fd st of
    ((status, calls), st') \<Rightarrow>
      if lookup st name = None \<and> room_count st < MAX_ROOMS
      then status = 0 \<and> lookup st' = (lookup st)(name \<mapsto> new_room name n)
      else status = 1 \<and> lookup st' = lookup st"
proof -
  obtain c where c: "client_request cmd0 [prog, ''create'', name, show_int n] = Some c" "command_ok c"
    "request_of c = Create_Room name n"
    using create_request [OF assms(1-4)] by blast
  show ?thesis
    using session_reports_main [OF c(1,2) assms(5,6), of resp0] assms(3,4)
    by (auto simp: c(3) split: if_splits)
qed

theorem create_from_command_line_witness:
  "case session 7 zero_command \<lparr>rs_status = 0, rs_message = []\<rparr>
      [''client'', ''create'', ''a'', show_int 5] 3 daemon_start of
    ((status, calls), st') \<Rightarrow> status = 0 \<and> lookup st' = (lookup daemon_start)(''a'' \<mapsto> new_room ''a'' 5)"
proof -
  have "is_word ''a''" by (simp add: is_word_def isspace_c_def)
  moreover have "lookup daemon_start ''a'' = None \<and> room_count daemon_start < MAX_ROOMS"
    by (simp add: lookup_def find_room_def daemon_start_def MAX_ROOMS_def)
  ultimately show ?thesis
    using create_from_command_line [of "''a''" 5 3 7 daemon_start zero_command
        "\<lparr>rs_status = 0, rs_message = []\<rparr>" "''client''", OF _ _ _ _ _ daemon_inv_start]
    by simp
qed

end
