(* ===== verification/Logger.thy ===== *)
theory Logger
  imports CLib
begin

text \<open>
  The logger of the integration daemon: \<^verbatim>\<open>src/04-integration/logger.c\<close>.

  The file system is a map from paths to contents (\<open>disk\<close>); the open log file is the path it
  was opened with, since the only renames are made while it is closed. What the program asks
  its surroundings comes in with each call (\<open>log_env\<close>): the local time, the process and
  thread ids, and which paths can be opened. A formatted message is the text that its format
  and arguments give; the buffers cut it as \<open>vsnprintf\<close> does.
\<close>

section \<open>Levels\<close>

datatype log_level = LOG_TRACE | LOG_DEBUG | LOG_INFO | LOG_WARN | LOG_ERROR | LOG_FATAL

fun level_num :: "log_level \<Rightarrow> nat" where
  "level_num LOG_TRACE = 0"
| "level_num LOG_DEBUG = 1"
| "level_num LOG_INFO = 2"
| "level_num LOG_WARN = 3"
| "level_num LOG_ERROR = 4"
| "level_num LOG_FATAL = 5"

lemma level_num_inj: "level_num a = level_num b \<longleftrightarrow> a = b"
  by (cases a; cases b) simp_all

instantiation log_level :: linorder
begin

definition less_eq_log_level :: "log_level \<Rightarrow> log_level \<Rightarrow> bool" where
  "less_eq_log_level a b \<longleftrightarrow> level_num a \<le> level_num b"

definition less_log_level :: "log_level \<Rightarrow> log_level \<Rightarrow> bool" where
  "less_log_level a b \<longleftrightarrow> level_num a < level_num b"

instance
  by standard (auto simp: less_eq_log_level_def less_log_level_def level_num_inj)

end

definition log_levels :: "log_level list" where
  "log_levels = [LOG_TRACE, LOG_DEBUG, LOG_INFO, LOG_WARN, LOG_ERROR, LOG_FATAL]"

definition level_strings :: "string list" where
  "level_strings = [''TRACE'', ''DEBUG'', ''INFO'', ''WARN'', ''ERROR'', ''FATAL'']"

definition level_name :: "log_level \<Rightarrow> string" where
  "level_name l = level_strings ! level_num l"

definition log_level_to_string :: "int \<Rightarrow> string" where
  "log_level_to_string i = (if 0 \<le> i \<and> i \<le> 5 then level_strings ! nat i else ''UNKNOWN'')"

text \<open>The loop over the names, from the first.\<close>

definition log_level_from_string :: "string option \<Rightarrow> log_level" where
  "log_level_from_string s =
     (case s of
        None \<Rightarrow> LOG_INFO
      | Some level_str \<Rightarrow>
          (case find (\<lambda>l. strcasecmp_eq level_str (level_name l)) log_levels of
             None \<Rightarrow> LOG_INFO
           | Some l \<Rightarrow> l))"

lemma level_round_trip: "log_level_from_string (Some (log_level_to_string (int (level_num l)))) = l"
  by (cases l; hypsubst; code_simp)

interpretation level: codec "\<lambda>l. log_level_to_string (int (level_num l))"
  "\<lambda>s. log_level_from_string (Some s)" "\<lambda>l. l" "\<lambda>_. True"
  by unfold_locales (rule level_round_trip)

section \<open>State\<close>

record logger =
  log_file :: "string option"
  log_path :: string
  current_level :: log_level
  log_mutex :: mutex
  initialized :: bool
  structured_mode :: int
  made_dirs :: "string list"
  disk :: "string \<Rightarrow> string option"

text \<open>The local time in the fields of \<open>struct tm\<close>: years since 1900, months from 0.\<close>

record tm =
  tm_year :: int
  tm_mon :: int
  tm_mday :: int
  tm_hour :: int
  tm_min :: int
  tm_sec :: int

record log_env =
  e_local :: tm
  e_pid :: int
  e_self :: "64 word"
  e_opens :: "string \<Rightarrow> bool"

definition MAX_LOG_LENGTH :: nat where "MAX_LOG_LENGTH = 2048"
definition LOG_FILE_SIZE_LIMIT :: nat where "LOG_FILE_SIZE_LIMIT = 10485760"
definition LOG_FILES_TO_KEEP :: nat where "LOG_FILES_TO_KEEP = 5"

text \<open>Two digits with a leading zero, and \<open>%lx\<close>.\<close>

definition two_digits :: "int \<Rightarrow> string" where
  "two_digits i = (if 0 \<le> i \<and> i < 10 then ''0'' else []) @ show_int i"

definition hex_digit :: "nat \<Rightarrow> char" where
  "hex_digit n = ''0123456789abcdef'' ! n"

fun show_hex :: "nat \<Rightarrow> string" where
  "show_hex n = (if n < 16 then [hex_digit n] else show_hex (n div 16) @ [hex_digit (n mod 16)])"

declare show_hex.simps [simp del]

text \<open>\<open>strftime\<close> with \<open>%Y-%m-%d %H:%M:%S\<close>; a text that does not fit its buffer is not stored, which does
  not happen here.\<close>

definition get_timestamp :: "tm \<Rightarrow> nat \<Rightarrow> string" where
  "get_timestamp t n =
     (let text = show_int (tm_year t + 1900) @ ''-'' @ two_digits (tm_mon t + 1) @ ''-'' @ two_digits (tm_mday t) @
            '' '' @ two_digits (tm_hour t) @ '':'' @ two_digits (tm_min t) @ '':'' @ two_digits (tm_sec t)
      in if length text < n then text else [])"

definition e_time :: "log_env \<Rightarrow> string" where
  "e_time env = get_timestamp (e_local env) 32"

definition e_thread :: "log_env \<Rightarrow> string" where
  "e_thread env = show_hex (unat (e_self env))"

text \<open>A date of this time fits, whatever the local time zone makes of it; neither text has a newline.\<close>

definition tm_ok :: "tm \<Rightarrow> bool" where
  "tm_ok t \<longleftrightarrow> - 1900 \<le> tm_year t \<and> tm_year t < 8100 \<and> 0 \<le> tm_mon t \<and> tm_mon t < 12 \<and>
     1 \<le> tm_mday t \<and> tm_mday t \<le> 31 \<and> 0 \<le> tm_hour t \<and> tm_hour t < 24 \<and> 0 \<le> tm_min t \<and> tm_min t < 60 \<and>
     0 \<le> tm_sec t \<and> tm_sec t \<le> 60"

lemma length_two_digits:
  assumes "0 \<le> i" and "i < 100"
  shows "length (two_digits i) = 2"
proof (cases "i < 10")
  case True
  then show ?thesis using assms by (simp add: two_digits_def show_int_def show_nat.simps nat_less_iff)
next
  case False
  then have "\<not> nat i < 10" "nat i div 10 < 10" using assms by (simp_all add: nat_less_iff)
  then show ?thesis using False assms by (simp add: two_digits_def show_int_def show_nat.simps [of "nat i"] show_nat.simps [of "nat i div 10"])
qed

lemma timestamp_fits:
  assumes "tm_ok t"
  shows "length (get_timestamp t 32) \<ge> 15"
proof -
  have "length (show_int (tm_year t + 1900)) \<le> Suc 3"
    using assms show_nat_length [of "nat (tm_year t + 1900)" 3] by (simp add: show_int_def tm_ok_def nat_less_iff)
  moreover have "length (two_digits (tm_mon t + 1)) = 2" "length (two_digits (tm_mday t)) = 2"
    "length (two_digits (tm_hour t)) = 2" "length (two_digits (tm_min t)) = 2" "length (two_digits (tm_sec t)) = 2"
    using assms by (auto simp: tm_ok_def intro!: length_two_digits)
  ultimately show ?thesis by (simp add: get_timestamp_def Let_def)
qed

lemma timestamp_no_newline: "NL \<notin> set (e_time env)"
proof -
  have "NL \<notin> set (show_int i)" for i
  proof -
    have "\<not> isdigit_c NL" by code_simp
    then have "NL \<notin> set (show_nat n)" for n using show_nat_digits [of n] by auto
    then show ?thesis by (simp add: show_int_def)
  qed
  then show ?thesis by (simp add: e_time_def get_timestamp_def two_digits_def Let_def)
qed

lemma thread_no_newline: "NL \<notin> set (e_thread env)"
proof -
  have "NL \<notin> set (show_hex n)" for n
  proof (induction n rule: show_hex.induct)
    case (1 n)
    have "list_all (\<lambda>i. hex_digit i \<noteq> NL) [0..<16]" by code_simp
    then have "NL \<noteq> hex_digit i" if "i < 16" for i using that by (auto simp: list_all_iff)
    then show ?case using 1 by (cases "n < 16") (simp_all add: show_hex.simps [of n])
  qed
  then show ?thesis by (simp add: e_thread_def)
qed

definition logger_ctx :: "(string \<Rightarrow> string option) \<Rightarrow> logger" where
  "logger_ctx d = \<lparr>log_file = None, log_path = [], current_level = LOG_INFO,
     log_mutex = \<lparr>kind = Normal, depth = 0\<rparr>, initialized = False, structured_mode = 0,
     made_dirs = [], disk = d\<rparr>"

definition contents :: "(string \<Rightarrow> string option) \<Rightarrow> string \<Rightarrow> string" where
  "contents d p = (case d p of None \<Rightarrow> [] | Some s \<Rightarrow> s)"

text \<open>\<open>fopen(p, "a")\<close> creates the file when it is missing and changes nothing else.\<close>

definition fopen_append :: "log_env \<Rightarrow> string \<Rightarrow> logger \<Rightarrow> logger" where
  "fopen_append env p lg =
     (if e_opens env p then lg\<lparr>log_file := Some p, disk := (disk lg)(p \<mapsto> contents (disk lg) p)\<rparr>
      else lg\<lparr>log_file := None\<rparr>)"

text \<open>\<open>rename\<close> of a file that exists; it fails without effect when it does not.\<close>

definition rename_file :: "string \<Rightarrow> string \<Rightarrow> (string \<Rightarrow> string option) \<Rightarrow> string \<Rightarrow> string option" where
  "rename_file a b d = (case d a of None \<Rightarrow> d | Some s \<Rightarrow> d(a := None, b := Some s))"

section \<open>Rotation\<close>

definition numbered :: "string \<Rightarrow> nat \<Rightarrow> string" where
  "numbered p i = snprintf_c [] 300 (p @ ''.'' @ show_nat i)"

text \<open>The loop from \<open>i\<close> down to 1: the file with number \<open>i - 1\<close> gets number \<open>i\<close>.\<close>

fun rotate_files :: "string \<Rightarrow> nat \<Rightarrow> (string \<Rightarrow> string option) \<Rightarrow> string \<Rightarrow> string option" where
  "rotate_files p 0 d = d"
| "rotate_files p (Suc i) d = rotate_files p i (rename_file (numbered p i) (numbered p (Suc i)) d)"

definition rotate_log_if_needed :: "log_env \<Rightarrow> logger \<Rightarrow> logger" where
  "rotate_log_if_needed env lg =
     (case log_file lg of
        None \<Rightarrow> lg
      | Some p \<Rightarrow>
          if LOG_FILE_SIZE_LIMIT \<le> length (contents (disk lg) p) then
            (let d = rotate_files (log_path lg) (LOG_FILES_TO_KEEP - 1) (disk lg);
                 d = rename_file (log_path lg) (numbered (log_path lg) 0) d
             in fopen_append env (log_path lg) (lg\<lparr>disk := d\<rparr>))
          else lg)"

section \<open>Escaping\<close>

text \<open>
  The loop over the input with the output written so far. Sizes are \<open>size_t\<close>, so the
  subtractions wrap; \<open>put\<close> is a write at the end of what is there already.
\<close>

definition size_sub :: "nat \<Rightarrow> nat \<Rightarrow> nat" where
  "size_sub a b = nat ((int a - int b) mod 2 ^ 64)"

definition put :: "nat \<Rightarrow> string \<Rightarrow> string \<Rightarrow> string outcome" where
  "put sz out s = (if length out + length s \<le> sz then Inr (out @ s) else Inl Out_Of_Bounds)"

definition backslash :: char where "backslash = CHR 0x5C"
definition dquote :: char where "dquote = CHR 0x22"

text \<open>What the switch writes for a character, and whether it checks for two free bytes first.\<close>

definition esc_char :: "char \<Rightarrow> string" where
  "esc_char c =
     (if c = NL then [backslash, CHR ''n'']
      else if c = CHR 0x0D then [backslash, CHR ''r'']
      else if c = CHR 0x09 then [backslash, CHR ''t'']
      else if c = dquote then [backslash, dquote]
      else if c = backslash then [backslash, backslash]
      else if isprint_c c then [c] else [])"

fun escape_loop :: "nat \<Rightarrow> string \<Rightarrow> string \<Rightarrow> string outcome" where
  "escape_loop sz [] out = Inr out"
| "escape_loop sz (c # cs) out =
     (if length out < size_sub sz 2 then
        (if length (esc_char c) = 2 \<and> \<not> length out < size_sub sz 3 then escape_loop sz cs out
         else bind_outcome (put sz out (esc_char c)) (escape_loop sz cs))
      else Inr out)"

definition escape_json_string :: "string \<Rightarrow> nat \<Rightarrow> string outcome" where
  "escape_json_string input sz =
     bind_outcome (escape_loop sz input [])
       (\<lambda>out. if length out < sz then Inr out else Inl Out_Of_Bounds)"

section \<open>The text of a record\<close>

fun commas :: "string list \<Rightarrow> string" where
  "commas [] = []"
| "commas [f] = f"
| "commas (f # g # fs) = f @ '','' @ commas (g # fs)"

definition str_field :: "string \<Rightarrow> string \<Rightarrow> string" where
  "str_field k v = [dquote] @ k @ [dquote] @ '':'' @ [dquote] @ v @ [dquote]"

definition num_field :: "string \<Rightarrow> string \<Rightarrow> string" where
  "num_field k v = [dquote] @ k @ [dquote] @ '':'' @ v"

definition json_record :: "string list \<Rightarrow> string" where
  "json_record fs = ''{'' @ commas fs @ ''}'' @ [NL]"

definition bracket :: "string \<Rightarrow> string" where
  "bracket s = ''['' @ s @ '']''"

definition message_buffer :: "string \<Rightarrow> string" where
  "message_buffer message = snprintf_c [] MAX_LOG_LENGTH message"

definition message_record ::
  "log_env \<Rightarrow> int \<Rightarrow> log_level \<Rightarrow> string \<Rightarrow> int \<Rightarrow> string \<Rightarrow> string \<Rightarrow> string outcome" where
  "message_record env structured level file line func message =
     (let m = message_buffer message
      in if structured \<noteq> 0 then
           bind_outcome (escape_json_string m (MAX_LOG_LENGTH * 2))
             (\<lambda>em. Inr (json_record
                [str_field ''timestamp'' (e_time env), str_field ''level'' (level_name level),
                 str_field ''file'' file, num_field ''line'' (show_int line),
                 str_field ''function'' func, str_field ''message'' em,
                 num_field ''pid'' (show_int (e_pid env)),
                 str_field ''thread'' (''0x'' @ e_thread env)]))
         else
           Inr (bracket (e_time env) @ '' '' @ bracket (level_name level) @ '' '' @
                bracket (file @ '':'' @ show_int line @ '':'' @ func) @ '' '' @
                bracket (''PID:'' @ show_int (e_pid env)) @ '' '' @ m @ [NL]))"

definition context_record ::
  "log_env \<Rightarrow> int \<Rightarrow> log_level \<Rightarrow> string \<Rightarrow> string \<Rightarrow> int \<Rightarrow> string \<Rightarrow> string outcome" where
  "context_record env structured level component func line message =
     (let m = message_buffer message
      in if structured \<noteq> 0 then
           bind_outcome (escape_json_string m (MAX_LOG_LENGTH * 2))
             (\<lambda>em. Inr (json_record
                [str_field ''timestamp'' (e_time env), str_field ''level'' (level_name level),
                 str_field ''component'' component, str_field ''function'' func,
                 num_field ''line'' (show_int line), str_field ''message'' em,
                 num_field ''pid'' (show_int (e_pid env))]))
         else
           Inr (bracket (e_time env) @ '' '' @ bracket (level_name level) @ '' '' @
                bracket (component @ '':'' @ func @ '':'' @ show_int line) @ '' '' @ m @ [NL]))"

text \<open>\<open>duration\<close> is the text \<open>%.3f\<close> gives for the number of milliseconds.\<close>

definition performance_record :: "log_env \<Rightarrow> int \<Rightarrow> string \<Rightarrow> string \<Rightarrow> string" where
  "performance_record env structured op duration =
     (if structured \<noteq> 0 then
        json_record
          [str_field ''timestamp'' (e_time env), str_field ''level'' ''PERF'',
           str_field ''operation'' op, num_field ''duration_ms'' duration,
           num_field ''pid'' (show_int (e_pid env))]
      else bracket (e_time env) @ '' [PERF] '' @ op @ '' took '' @ duration @ '' ms'' @ [NL])"

section \<open>Operations\<close>

definition log_lock :: "logger \<Rightarrow> logger outcome" where
  "log_lock lg = bind_outcome (mutex_lock (log_mutex lg)) (\<lambda>m. Inr (lg\<lparr>log_mutex := m\<rparr>))"

definition log_unlock :: "logger \<Rightarrow> logger" where
  "log_unlock lg = lg\<lparr>log_mutex := mutex_unlock (log_mutex lg)\<rparr>"

text \<open>\<open>fprintf\<close> to the log file, which is open for appending; a null \<open>FILE\<close> is a fault.\<close>

definition write_log :: "string \<Rightarrow> logger \<Rightarrow> logger outcome" where
  "write_log s lg =
     (case log_file lg of
        None \<Rightarrow> Inl Null_Pointer
      | Some p \<Rightarrow> Inr (lg\<lparr>disk := (disk lg)(p \<mapsto> contents (disk lg) p @ s)\<rparr>))"

text \<open>The common part of the logging functions: format, write, flush and rotate under the lock.\<close>

definition log_record :: "log_env \<Rightarrow> (logger \<Rightarrow> string outcome) \<Rightarrow> logger \<Rightarrow> logger outcome" where
  "log_record env rec lg =
     bind_outcome (log_lock lg) (\<lambda>lg.
     bind_outcome (rec lg) (\<lambda>s.
     bind_outcome (write_log s lg) (\<lambda>lg.
     Inr (log_unlock (rotate_log_if_needed env lg)))))"

definition log_message ::
  "log_env \<Rightarrow> log_level \<Rightarrow> string \<Rightarrow> int \<Rightarrow> string \<Rightarrow> string \<Rightarrow> logger \<Rightarrow> logger outcome" where
  "log_message env level file line func message lg =
     (if \<not> initialized lg \<or> level < current_level lg then Inr lg
      else log_record env
        (\<lambda>lg. message_record env (structured_mode lg) level file line func message) lg)"

definition log_with_context ::
  "log_env \<Rightarrow> log_level \<Rightarrow> string \<Rightarrow> string \<Rightarrow> int \<Rightarrow> string \<Rightarrow> logger \<Rightarrow> logger outcome" where
  "log_with_context env level component func line message lg =
     (if \<not> initialized lg \<or> level < current_level lg then Inr lg
      else log_record env
        (\<lambda>lg. context_record env (structured_mode lg) level component func line message) lg)"

definition log_performance :: "log_env \<Rightarrow> string \<Rightarrow> string \<Rightarrow> logger \<Rightarrow> logger outcome" where
  "log_performance env op duration lg =
     (if \<not> initialized lg \<or> LOG_DEBUG < current_level lg then Inr lg
      else log_record env
        (\<lambda>lg. Inr (performance_record env (structured_mode lg) op duration)) lg)"

text \<open>The six public functions pass their own place in \<^verbatim>\<open>logger.c\<close>, not that of the caller.\<close>

definition logger_file :: string where "logger_file = ''./logger.c''"

fun place :: "log_level \<Rightarrow> int \<times> string" where
  "place LOG_TRACE = (206, ''log_trace'')"
| "place LOG_DEBUG = (213, ''log_debug'')"
| "place LOG_INFO = (220, ''log_info'')"
| "place LOG_WARN = (227, ''log_warn'')"
| "place LOG_ERROR = (234, ''log_error'')"
| "place LOG_FATAL = (241, ''log_fatal'')"

definition log_at :: "log_level \<Rightarrow> log_env \<Rightarrow> string \<Rightarrow> logger \<Rightarrow> logger outcome" where
  "log_at level env message =
     log_message env level logger_file (fst (place level)) (snd (place level)) message"

abbreviation log_info :: "log_env \<Rightarrow> string \<Rightarrow> logger \<Rightarrow> logger outcome" where
  "log_info \<equiv> log_at LOG_INFO"

definition logger_set_level :: "log_level \<Rightarrow> logger \<Rightarrow> logger outcome" where
  "logger_set_level level lg =
     bind_outcome (log_lock lg) (\<lambda>lg. Inr (log_unlock (lg\<lparr>current_level := level\<rparr>)))"

definition logger_set_structured_mode :: "int \<Rightarrow> logger \<Rightarrow> logger outcome" where
  "logger_set_structured_mode enable lg =
     bind_outcome (log_lock lg) (\<lambda>lg. Inr (log_unlock (lg\<lparr>structured_mode := enable\<rparr>)))"

text \<open>The part of the path before its last slash, if it has one.\<close>

definition dir_of :: "string \<Rightarrow> string option" where
  "dir_of path =
     (let p = strncpy_c 255 path
      in if CHR ''/'' \<in> set p then Some (rev (tl (dropWhile (\<lambda>c. c \<noteq> CHR ''/'') (rev p)))) else None)"

definition init_message :: "string \<Rightarrow> log_level \<Rightarrow> int \<Rightarrow> string" where
  "init_message path level structured =
     ''Logger initialized: path='' @ path @ '', level='' @ level_name level @
     '', structured='' @ (if structured \<noteq> 0 then ''yes'' else ''no'')"

definition logger_init ::
  "log_env \<Rightarrow> string \<Rightarrow> log_level \<Rightarrow> int \<Rightarrow> logger \<Rightarrow> (int \<times> logger) outcome" where
  "logger_init env path level structured lg =
     bind_outcome (log_lock lg) (\<lambda>lg.
       (let lg = (case dir_of path of None \<Rightarrow> lg | Some d \<Rightarrow> lg\<lparr>made_dirs := d # made_dirs lg\<rparr>);
            lg = fopen_append env path lg
        in if log_file lg = None then Inr (-1, log_unlock lg)
           else
             bind_outcome
               (log_info env (init_message path level structured)
                  (log_unlock (lg\<lparr>log_path := strncpy_c 255 path, current_level := level,
                     structured_mode := structured, initialized := True\<rparr>)))
               (\<lambda>lg. Inr (0, lg))))"

definition logger_cleanup :: "log_env \<Rightarrow> logger \<Rightarrow> logger outcome" where
  "logger_cleanup env lg =
     bind_outcome (log_lock lg) (\<lambda>lg.
     bind_outcome
       (if log_file lg = None then Inr lg
        else bind_outcome (log_info env ''Logger shutting down'' lg)
               (\<lambda>lg. Inr (lg\<lparr>log_file := None\<rparr>)))
       (\<lambda>lg. Inr (log_unlock (lg\<lparr>initialized := False\<rparr>))))"

section \<open>Escaping: nothing lost, nothing outside the buffer\<close>

lemma esc_char_length: "length (esc_char c) \<le> 2"
  by (simp add: esc_char_def)

lemma size_sub_eq: "b \<le> a \<Longrightarrow> a < 2 ^ 64 \<Longrightarrow> size_sub a b = a - b"
  by (simp add: size_sub_def)

lemma escape_loop_fits:
  assumes "sz < 2 ^ 64" and "length out + 2 * length s + 1 < sz"
  shows "escape_loop sz s out = Inr (out @ concat (map esc_char s))"
  using assms(2)
proof (induction s arbitrary: out)
  case (Cons c cs)
  have "3 \<le> sz" using Cons.prems by simp
  then have sub: "size_sub sz 2 = sz - 2" "size_sub sz 3 = sz - 3"
    using assms(1) by (simp_all add: size_sub_eq)
  have "escape_loop sz cs (out @ esc_char c) = Inr ((out @ esc_char c) @ concat (map esc_char cs))"
    using Cons.prems esc_char_length [of c] by (intro Cons.IH) simp
  moreover have "length out < sz - 3" "length out < sz - 2"
    "length out + length (esc_char c) \<le> sz"
    using Cons.prems esc_char_length [of c] by auto
  ultimately show ?case by (simp add: sub put_def)
qed simp

lemma escape_loop_safe:
  assumes "sz < 2 ^ 64" and "3 \<le> sz" and "length out < sz"
  shows "\<exists>out'. escape_loop sz s out = Inr out' \<and> length out' < sz"
  using assms(3)
proof (induction s arbitrary: out)
  case (Cons c cs)
  have sub: "size_sub sz 2 = sz - 2" "size_sub sz 3 = sz - 3"
    using assms by (simp_all add: size_sub_eq)
  have "\<exists>out'. escape_loop sz cs (out @ esc_char c) = Inr out' \<and> length out' < sz"
    if "length out < sz - 2" "length (esc_char c) = 2 \<longrightarrow> length out < sz - 3"
    using that esc_char_length [of c] by (intro Cons.IH) (auto simp: le_less numeral_2_eq_2)
  moreover have "length (esc_char c) < 2" if "length (esc_char c) \<noteq> 2"
    using that esc_char_length [of c] by linarith
  ultimately show ?case using Cons esc_char_length [of c]
    by (auto simp: sub put_def)
qed simp

lemma escape_total: "length m \<le> 2047 \<Longrightarrow> escape_json_string m 4096 = Inr (concat (map esc_char m))"
proof -
  assume m: "length m \<le> 2047"
  have "length (concat (map esc_char m)) \<le> 2 * length m"
    by (induction m) (use esc_char_length in \<open>auto intro: add_mono [THEN order_trans]\<close>)
  with m show ?thesis by (simp add: escape_json_string_def escape_loop_fits)
qed

text \<open>
  A reader of JSON strings, for the escapes the logger writes: the text up to the first quote
  that is not escaped, and what follows.
\<close>

definition unesc :: "char \<Rightarrow> char" where
  "unesc d = (if d = CHR ''n'' then NL else if d = CHR ''r'' then CHR 0x0D
              else if d = CHR ''t'' then CHR 0x09 else d)"

fun read_string :: "string \<Rightarrow> (string \<times> string) option" where
  "read_string [] = None"
| "read_string [c] = (if c = dquote then Some ([], []) else None)"
| "read_string (c # d # cs) =
     (if c = dquote then Some ([], d # cs)
      else if c = backslash then map_option (map_prod ((#) (unesc d)) id) (read_string cs)
      else map_option (map_prod ((#) c) id) (read_string (d # cs)))"

definition kept :: "char \<Rightarrow> bool" where
  "kept c \<longleftrightarrow> isprint_c c \<or> c = NL \<or> c = CHR 0x0D \<or> c = CHR 0x09"

lemma read_string_esc_char:
  "read_string (esc_char c @ rest) =
     (if kept c then map_option (map_prod ((#) c) id) (read_string rest) else read_string rest)"
proof -
  have print: "isprint_c backslash" "isprint_c dquote" by code_simp+
  have "read_string (d # rest) = map_option (map_prod ((#) d) id) (read_string rest)"
    if "d \<noteq> backslash" "d \<noteq> dquote" for d
    using that by (cases rest) simp_all
  then show ?thesis using print
    by (auto simp: esc_char_def kept_def backslash_def dquote_def unesc_def)
qed

lemma read_string_escaped:
  "read_string (concat (map esc_char m) @ dquote # rest) = Some (filter kept m, rest)"
proof (induction m)
  case Nil
  show ?case by (cases rest) simp_all
qed (simp add: read_string_esc_char)

definition escaped :: "string \<Rightarrow> string" where
  "escaped m = (case escape_json_string m (MAX_LOG_LENGTH * 2) of Inl _ \<Rightarrow> [] | Inr s \<Rightarrow> s)"

lemma escaped_eq: "length m < MAX_LOG_LENGTH \<Longrightarrow> escaped m = concat (map esc_char m)"
  by (simp add: escaped_def MAX_LOG_LENGTH_def escape_total)

text \<open>What the logger puts between quotes is read back whole, less the unprintable characters.\<close>

interpretation json: codec "\<lambda>m. escaped m @ [dquote]" "\<lambda>s. map_option fst (read_string s)"
  "\<lambda>m. Some (filter kept m)" "\<lambda>m. length m < MAX_LOG_LENGTH"
  by unfold_locales (simp add: escaped_eq read_string_escaped)

lemma esc_char_no_newline: "NL \<notin> set (esc_char c)"
proof -
  have "\<not> isprint_c NL" "NL \<noteq> backslash" "NL \<noteq> dquote" by code_simp+
  then show ?thesis by (auto simp: esc_char_def)
qed

section \<open>Rotation: a bounded list of old logs\<close>

lemma numbered_eq:
  "length p \<le> 255 \<Longrightarrow> i < 10 \<Longrightarrow> numbered p i = p @ ''.'' @ [digit_char i]"
  by (simp add: numbered_def snprintf_c_def show_nat_digit)

lemma numbered_inj:
  assumes "length p \<le> 255" and "i < 10" and "j < 10"
  shows "numbered p i = numbered p j \<longleftrightarrow> i = j"
proof -
  have "digit_char i = digit_char j \<Longrightarrow> i = j"
    by (metis digit_char_props(2) assms(2,3))
  then show ?thesis by (auto simp: numbered_eq assms)
qed

lemma numbered_other: "length p \<le> 255 \<Longrightarrow> i < 10 \<Longrightarrow> numbered p i \<noteq> p"
  by (simp add: numbered_eq)

definition archive :: "string \<Rightarrow> (string \<Rightarrow> string option) \<Rightarrow> nat \<Rightarrow> string option" where
  "archive p d i = d (numbered p i)"

definition gapless :: "string \<Rightarrow> (string \<Rightarrow> string option) \<Rightarrow> bool" where
  "gapless p d \<longleftrightarrow>
     (\<forall>i < LOG_FILES_TO_KEEP - 1. archive p d i = None \<longrightarrow> archive p d (Suc i) = None)"

definition archives :: "string \<Rightarrow> (string \<Rightarrow> string option) \<Rightarrow> string list" where
  "archives p d =
     map the (takeWhile (\<lambda>x. x \<noteq> None) (map (archive p d) [0..<LOG_FILES_TO_KEEP]))"

lemma rotate_files_archive:
  assumes "length p \<le> 255" and "n < 10"
    and "\<forall>i < n. archive p d i = None \<longrightarrow> archive p d (Suc i) = None"
  shows "(\<forall>i < n. archive p (rotate_files p n d) (Suc i) = archive p d i) \<and>
    (\<forall>q. (\<forall>i \<le> n. q \<noteq> numbered p i) \<longrightarrow> rotate_files p n d q = d q)"
  using assms(2,3)
proof (induction n arbitrary: d)
  case (Suc n)
  define d1 where "d1 = rename_file (numbered p n) (numbered p (Suc n)) d"
  have inj: "numbered p i = numbered p j \<longleftrightarrow> i = j" if "i \<le> Suc n" "j \<le> Suc n" for i j
    using that Suc.prems(1) by (intro numbered_inj [OF assms(1)]) simp_all
  have top: "archive p d1 (Suc n) = archive p d n"
    using Suc.prems(2) by (auto simp: d1_def archive_def rename_file_def inj split: option.splits)
  have low: "archive p d1 i = archive p d i" if "i < n" for i
    using that by (auto simp: d1_def archive_def rename_file_def inj split: option.splits)
  have other: "d1 q = d q" if "q \<noteq> numbered p n" "q \<noteq> numbered p (Suc n)" for q
    using that by (auto simp: d1_def rename_file_def split: option.splits)
  have mid: "archive p d1 n = None"
    by (auto simp: d1_def archive_def rename_file_def inj split: option.splits)
  have gap: "\<forall>i < n. archive p d1 i = None \<longrightarrow> archive p d1 (Suc i) = None"
    using Suc.prems(2) low mid by (metis Suc_lessI less_Suc_eq)
  have IH: "\<forall>i < n. archive p (rotate_files p n d1) (Suc i) = archive p d1 i"
    "\<forall>q. (\<forall>i \<le> n. q \<noteq> numbered p i) \<longrightarrow> rotate_files p n d1 q = d1 q"
    using Suc.IH [OF _ gap] Suc.prems(1) by auto
  have "archive p (rotate_files p n d1) (Suc n) = archive p d1 (Suc n)"
    using IH(2) inj unfolding archive_def by (metis Suc_n_not_le_n le_SucI order_refl)
  then show ?case using IH low top other
    by (auto simp: d1_def [symmetric] less_Suc_eq)
qed simp

lemma takeWhile_take: "takeWhile P (take n xs) = take n (takeWhile P xs)"
  by (induction xs arbitrary: n) (auto simp: take_Cons split: nat.splits)

lemma archives_shift:
  assumes "archive p d' 0 = Some cur"
    and "\<forall>i < LOG_FILES_TO_KEEP - 1. archive p d' (Suc i) = archive p d i"
  shows "archives p d' = take LOG_FILES_TO_KEEP (cur # archives p d)"
proof -
  let ?P = "\<lambda>x. x \<noteq> None" and ?old = "map (archive p d) [0..<5]"
  have "map (archive p d') [0..<5] = Some cur # map (archive p d) [0..<4]"
    using assms by (simp add: LOG_FILES_TO_KEEP_def upt_rec)
  also have "map (archive p d) [0..<4] = take 4 ?old" by (simp add: take_map)
  finally have "takeWhile ?P (map (archive p d') [0..<5]) = Some cur # take 4 (takeWhile ?P ?old)"
    by (simp only: takeWhile.simps takeWhile_take) simp
  then show ?thesis by (simp add: archives_def LOG_FILES_TO_KEEP_def take_map)
qed

lemma rotation:
  assumes "length p \<le> 255" and "gapless p d" and "d p = Some cur"
  defines "d' \<equiv> rename_file p (numbered p 0) (rotate_files p (LOG_FILES_TO_KEEP - 1) d)"
  shows "archives p d' = take LOG_FILES_TO_KEEP (cur # archives p d)"
    and "gapless p d'" and "d' p = None"
proof -
  let ?r = "rotate_files p (LOG_FILES_TO_KEEP - 1) d"
  have keep: "LOG_FILES_TO_KEEP - 1 = 4" by (simp add: LOG_FILES_TO_KEEP_def)
  have "p \<noteq> numbered p i" if "i \<le> 4" for i
    using numbered_other [OF assms(1), of i] that by simp
  then have r: "\<forall>i < 4. archive p ?r (Suc i) = archive p d i" "?r p = d p"
    using rotate_files_archive [OF assms(1), of 4 d] assms(2)
    by (simp_all add: gapless_def keep del: One_nat_def)
  have d': "d' = ?r(p := None, numbered p 0 \<mapsto> cur)"
    using r(2) assms(3) by (simp add: d'_def rename_file_def)
  have zero: "archive p d' 0 = Some cur" by (simp add: d' archive_def)
  have "archive p d' (Suc i) = archive p d i" if "i < 4" for i
    using r(1) that numbered_other [OF assms(1), of "Suc i"] numbered_inj [OF assms(1), of "Suc i" 0]
    by (simp add: d' archive_def)
  then have suc: "\<forall>i < LOG_FILES_TO_KEEP - 1. archive p d' (Suc i) = archive p d i"
    by (simp only: keep) simp
  show "archives p d' = take LOG_FILES_TO_KEEP (cur # archives p d)"
    by (rule archives_shift [OF zero suc])
  show "d' p = None" using numbered_other [OF assms(1), of 0] by (simp add: d')
  show "gapless p d'" unfolding gapless_def
  proof (intro allI impI)
    fix i
    assume i: "i < LOG_FILES_TO_KEEP - 1" and none: "archive p d' i = None"
    then obtain k where k: "i = Suc k" using zero by (cases i) auto
    then have "archive p d k = None" using suc i none by simp
    then have "archive p d (Suc k) = None" using assms(2) i k by (simp add: gapless_def)
    then show "archive p d' (Suc i) = None" using suc i k by simp
  qed
qed

section \<open>Logging refines appending to a bounded store\<close>

type_synonym store = "string \<times> string list"

definition store :: "logger \<Rightarrow> store" where
  "store lg = (contents (disk lg) (log_path lg), archives (log_path lg) (disk lg))"

text \<open>The store: the current log and the old ones, the newest first and at most five.\<close>

definition spec_append :: "string \<Rightarrow> store \<Rightarrow> store" where
  "spec_append s st =
     (let cur = fst st @ s
      in if LOG_FILE_SIZE_LIMIT \<le> length cur then ([], take LOG_FILES_TO_KEEP (cur # snd st))
         else (cur, snd st))"

definition log_inv :: "logger \<Rightarrow> bool" where
  "log_inv lg \<longleftrightarrow> log_mutex lg = \<lparr>kind = Normal, depth = 0\<rparr> \<and> length (log_path lg) \<le> 255 \<and>
     (log_file lg \<noteq> None \<longrightarrow> initialized lg)"

definition opened :: "logger \<Rightarrow> bool" where
  "opened lg \<longleftrightarrow> log_inv lg \<and> log_file lg = Some (log_path lg) \<and> disk lg (log_path lg) \<noteq> None \<and>
     gapless (log_path lg) (disk lg)"

lemma log_lock_free:
  "log_inv lg \<Longrightarrow> log_lock lg = Inr (lg\<lparr>log_mutex := \<lparr>kind = Normal, depth = 1\<rparr>\<rparr>)"
  by (simp add: log_inv_def log_lock_def mutex_lock_def)

lemma log_unlock_lock:
  "log_inv lg \<Longrightarrow> log_unlock (lg'\<lparr>log_mutex := \<lparr>kind = Normal, depth = 1\<rparr>\<rparr>) = lg'\<lparr>log_mutex := log_mutex lg\<rparr>"
  by (simp add: log_inv_def log_unlock_def mutex_unlock_def)

lemma rotate_mutex:
  "rotate_log_if_needed env (lg\<lparr>log_mutex := m\<rparr>) = (rotate_log_if_needed env lg)\<lparr>log_mutex := m\<rparr>"
  by (simp add: rotate_log_if_needed_def fopen_append_def Let_def split: option.splits)

lemma rotate_frame [simp]:
  "log_mutex (rotate_log_if_needed env lg) = log_mutex lg"
  "log_path (rotate_log_if_needed env lg) = log_path lg"
  "current_level (rotate_log_if_needed env lg) = current_level lg"
  "structured_mode (rotate_log_if_needed env lg) = structured_mode lg"
  "initialized (rotate_log_if_needed env lg) = initialized lg"
  by (simp_all add: rotate_log_if_needed_def fopen_append_def Let_def split: option.splits)

text \<open>A record of any kind, from a free mutex.\<close>

lemma log_record_eq:
  assumes "log_inv lg"
  shows "log_record env rec lg =
     bind_outcome (rec (lg\<lparr>log_mutex := \<lparr>kind = Normal, depth = 1\<rparr>\<rparr>)) (\<lambda>s.
     bind_outcome (write_log s lg) (\<lambda>lg. Inr (rotate_log_if_needed env lg)))"
proof -
  have m: "log_mutex lg = \<lparr>kind = Normal, depth = 0\<rparr>" using assms by (simp add: log_inv_def)
  then have "lg\<lparr>disk := d, log_mutex := \<lparr>kind = Normal, depth = 0\<rparr>\<rparr> = lg\<lparr>disk := d\<rparr>" for d
    by (cases lg) simp
  then show ?thesis
    by (simp add: log_record_def log_lock_free [OF assms] write_log_def rotate_mutex [symmetric]
        log_unlock_def mutex_unlock_def bind_outcome_def split: sum.splits option.splits)
qed

lemma rotate_store:
  assumes "opened lg" and "e_opens env (log_path lg)"
    and "contents (disk lg) (log_path lg) = cur"
  shows "store (rotate_log_if_needed env lg) = spec_append [] (store lg)"
    and "opened (rotate_log_if_needed env lg)"
proof -
  let ?p = "log_path lg"
  have p: "length ?p \<le> 255" "gapless ?p (disk lg)" "disk lg ?p = Some cur" "log_file lg = Some ?p"
    using assms(1,3) by (auto simp: opened_def log_inv_def contents_def)
  define d' where "d' = rename_file ?p (numbered ?p 0) (rotate_files ?p (LOG_FILES_TO_KEEP - 1) (disk lg))"
  note rot = rotation [OF p(1-3), folded d'_def]
  have eq: "rotate_log_if_needed env lg =
      (if LOG_FILE_SIZE_LIMIT \<le> length cur then lg\<lparr>disk := d'(?p \<mapsto> [])\<rparr> else lg)"
  proof -
    have "lg\<lparr>log_file := Some ?p, disk := x\<rparr> = lg\<lparr>disk := x\<rparr>" for x using p(4) by (cases lg) simp
    then show ?thesis using p assms(2,3) rot(3)
      by (simp add: rotate_log_if_needed_def fopen_append_def contents_def d'_def Let_def)
  qed
  have "archive ?p (d'(?p \<mapsto> [])) i = archive ?p d' i" if "i < 10" for i
    using numbered_other [OF p(1) that] by (simp add: archive_def)
  then have "map (archive ?p (d'(?p \<mapsto> []))) [0..<5] = map (archive ?p d') [0..<5]"
    and arch2: "gapless ?p (d'(?p \<mapsto> [])) = gapless ?p d'"
    by (simp_all add: gapless_def LOG_FILES_TO_KEEP_def map_eq_conv)
  then have arch1: "archives ?p (d'(?p \<mapsto> [])) = archives ?p d'"
    by (simp only: archives_def LOG_FILES_TO_KEEP_def)
  show "store (rotate_log_if_needed env lg) = spec_append [] (store lg)"
    using p(3) rot(1) arch1 by (simp add: eq store_def spec_append_def contents_def Let_def)
  show "opened (rotate_log_if_needed env lg)"
    using assms(1) rot(2) arch2 by (simp add: eq opened_def log_inv_def)
qed

lemma write_log_opened:
  assumes "opened lg"
  shows "\<exists>lg'. write_log s lg = Inr lg' \<and> opened lg' \<and>
     store lg' = (fst (store lg) @ s, snd (store lg)) \<and> log_path lg' = log_path lg \<and>
     current_level lg' = current_level lg \<and> structured_mode lg' = structured_mode lg"
proof -
  let ?p = "log_path lg"
  let ?d = "(disk lg)(?p \<mapsto> contents (disk lg) ?p @ s)"
  have p: "length ?p \<le> 255" "log_file lg = Some ?p"
    using assms by (auto simp: opened_def log_inv_def)
  have "archive ?p ?d i = archive ?p (disk lg) i" if "i < 10" for i
    using numbered_other [OF p(1) that] by (simp add: archive_def)
  then have "map (archive ?p ?d) [0..<5] = map (archive ?p (disk lg)) [0..<5]"
    and gap: "gapless ?p ?d = gapless ?p (disk lg)"
    by (simp_all add: gapless_def LOG_FILES_TO_KEEP_def map_eq_conv)
  then have arch: "archives ?p ?d = archives ?p (disk lg)"
    by (simp only: archives_def LOG_FILES_TO_KEEP_def)
  show ?thesis
    using assms gap arch p(2) by (simp add: write_log_def opened_def log_inv_def store_def contents_def)
qed

definition record_text :: "int \<Rightarrow> log_env \<Rightarrow> log_level \<Rightarrow> string \<Rightarrow> string" where
  "record_text structured env l m =
     (case message_record env structured l logger_file (fst (place l)) (snd (place l)) m of
        Inl _ \<Rightarrow> [] | Inr s \<Rightarrow> s)"

lemma message_buffer_length: "length (message_buffer m) < MAX_LOG_LENGTH"
  by (simp add: message_buffer_def snprintf_bound MAX_LOG_LENGTH_def)

lemma escape_message:
  "escape_json_string (message_buffer m) (MAX_LOG_LENGTH * 2) = Inr (escaped (message_buffer m))"
proof -
  have "length (message_buffer m) \<le> 2047"
    using message_buffer_length [of m] by (simp add: MAX_LOG_LENGTH_def)
  then show ?thesis by (simp add: escaped_def MAX_LOG_LENGTH_def escape_total)
qed

lemma message_record_text:
  "message_record env structured l logger_file (fst (place l)) (snd (place l)) m =
     Inr (record_text structured env l m)"
  by (simp add: record_text_def message_record_def Let_def escape_message)

fun spec_log :: "log_level \<Rightarrow> int \<Rightarrow> store \<Rightarrow> log_env \<times> log_level \<times> string \<Rightarrow> store" where
  "spec_log level structured st (env, l, m) =
     (if l < level then st else spec_append (record_text structured env l m) st)"

lemma spec_append_split: "spec_append [] (fst st @ s, snd st) = spec_append s st"
  by (simp add: spec_append_def Let_def)

lemma log_at_refines:
  assumes "opened lg" and "e_opens env (log_path lg)"
  shows "\<exists>lg'. log_at l env m lg = Inr lg' \<and> opened lg' \<and>
     store lg' = spec_log (current_level lg) (structured_mode lg) (store lg) (env, l, m) \<and>
     log_path lg' = log_path lg \<and> current_level lg' = current_level lg \<and>
     structured_mode lg' = structured_mode lg"
proof (cases "l < current_level lg")
  case True
  with assms(1) show ?thesis by (simp add: log_at_def log_message_def)
next
  case False
  have inv: "log_inv lg" and init: "initialized lg"
    using assms(1) by (auto simp: opened_def log_inv_def)
  obtain lg1 where lg1: "write_log (record_text (structured_mode lg) env l m) lg = Inr lg1"
    "opened lg1" "store lg1 = (fst (store lg) @ record_text (structured_mode lg) env l m, snd (store lg))"
    "log_path lg1 = log_path lg" "current_level lg1 = current_level lg"
    "structured_mode lg1 = structured_mode lg"
    using write_log_opened [OF assms(1)] by blast
  have "log_at l env m lg = Inr (rotate_log_if_needed env lg1)"
    using False init lg1(1)
    by (simp add: log_at_def log_message_def log_record_eq [OF inv] message_record_text)
  then show ?thesis
    using rotate_store [OF lg1(2)] assms(2) lg1(3-6) False by (auto simp: spec_append_split)
qed

fun log_all :: "(log_env \<times> log_level \<times> string) list \<Rightarrow> logger \<Rightarrow> logger outcome" where
  "log_all [] lg = Inr lg"
| "log_all ((env, l, m) # ms) lg = bind_outcome (log_at l env m lg) (log_all ms)"

lemma log_all_refines:
  assumes "opened lg" and "\<forall>(env, l, m) \<in> set ms. e_opens env (log_path lg)"
  shows "\<exists>lg'. log_all ms lg = Inr lg' \<and> opened lg' \<and>
     store lg' = foldl (spec_log (current_level lg) (structured_mode lg)) (store lg) ms"
  using assms
proof (induction ms arbitrary: lg)
  case (Cons e ms)
  obtain env l m where e: "e = (env, l, m)" by (cases e)
  with Cons.prems(2) have "e_opens env (log_path lg)" by auto
  then obtain lg1 where lg1: "log_at l env m lg = Inr lg1" "opened lg1"
    "store lg1 = spec_log (current_level lg) (structured_mode lg) (store lg) (env, l, m)"
    "log_path lg1 = log_path lg" "current_level lg1 = current_level lg"
    "structured_mode lg1 = structured_mode lg"
    using log_at_refines [OF Cons.prems(1)] by blast
  with Cons.IH [OF lg1(2)] Cons.prems(2) show ?case by (auto simp: e)
qed simp

lemma logger_init_opens:
  assumes "length path \<le> 255" and "e_opens env path" and "gapless path d"
  shows "\<exists>lg. logger_init env path level structured (logger_ctx d) = Inr (0, lg) \<and> opened lg \<and>
     log_path lg = path \<and> current_level lg = level \<and> structured_mode lg = structured \<and>
     store lg = spec_log level structured (contents d path, archives path d)
                  (env, LOG_INFO, init_message path level structured)"
proof -
  define dirs where "dirs = (case dir_of path of None \<Rightarrow> [] | Some x \<Rightarrow> [x])"
  define lg where "lg = \<lparr>log_file = Some path, log_path = path, current_level = level,
     log_mutex = \<lparr>kind = Normal, depth = 0\<rparr>, initialized = True, structured_mode = structured,
     made_dirs = dirs, disk = d(path \<mapsto> contents d path)\<rparr>"
  have "archive path (disk lg) i = archive path d i" if "i < 10" for i
    using numbered_other [OF assms(1) that] by (simp add: archive_def lg_def)
  then have "map (archive path (disk lg)) [0..<5] = map (archive path d) [0..<5]"
    and gap: "gapless path (disk lg) = gapless path d"
    by (simp_all add: gapless_def LOG_FILES_TO_KEEP_def map_eq_conv)
  then have arch: "archives path (disk lg) = archives path d"
    by (simp only: archives_def LOG_FILES_TO_KEEP_def)
  have "opened lg" using gap assms by (simp add: opened_def log_inv_def lg_def)
  moreover have "store lg = (contents d path, archives path d)"
    using arch by (simp add: store_def lg_def contents_def)
  moreover have "logger_init env path level structured (logger_ctx d) =
      bind_outcome (log_info env (init_message path level structured) lg) (\<lambda>lg. Inr (0, lg))"
    using assms(1,2)
    by (simp add: logger_init_def logger_ctx_def log_lock_def mutex_lock_def log_unlock_def
        mutex_unlock_def fopen_append_def lg_def dirs_def strncpy_c_def
        split: option.splits)
  ultimately show ?thesis
    using log_at_refines [of lg env LOG_INFO "init_message path level structured"] assms(2)
    by (auto simp: lg_def)
qed

lemma json_record_line:
  assumes "\<forall>f \<in> set fs. NL \<notin> set f"
  shows "\<exists>l. json_record fs = l @ [NL] \<and> NL \<notin> set l"
proof -
  have "NL \<notin> set (commas fs)" using assms by (induction fs rule: commas.induct) auto
  then have "NL \<notin> set (''{'' @ commas fs @ ''}'')" by auto
  then show ?thesis unfolding json_record_def by (metis append.assoc)
qed

lemma log_at_outcome:
  assumes "log_inv lg"
  shows "log_at l env m lg =
     (if \<not> initialized lg \<or> l < current_level lg then Inr lg
      else bind_outcome (write_log (record_text (structured_mode lg) env l m) lg)
             (\<lambda>lg. Inr (rotate_log_if_needed env lg)))"
  by (simp add: log_at_def log_message_def log_record_eq [OF assms] message_record_text)

section \<open>All operations\<close>

datatype log_event =
    Log log_level string | Log_Context log_level string string int string | Log_Perf string string
  | Set_Level log_level | Set_Mode int | Init string log_level int | Cleanup

fun log_exec :: "log_env \<Rightarrow> log_event \<Rightarrow> logger \<Rightarrow> logger outcome" where
  "log_exec env (Log l m) lg = log_at l env m lg"
| "log_exec env (Log_Context l part func line m) lg = log_with_context env l part func line m lg"
| "log_exec env (Log_Perf op dur) lg = log_performance env op dur lg"
| "log_exec env (Set_Level l) lg = logger_set_level l lg"
| "log_exec env (Set_Mode i) lg = logger_set_structured_mode i lg"
| "log_exec env (Init path l i) lg =
     bind_outcome (logger_init env path l i lg) (\<lambda>(_, lg). Inr lg)"
| "log_exec env Cleanup lg = logger_cleanup env lg"

definition log_step :: "logger \<Rightarrow> log_env \<times> log_event \<Rightarrow> logger" where
  "log_step lg e = (case log_exec (fst e) (snd e) lg of Inl _ \<Rightarrow> lg | Inr lg' \<Rightarrow> lg')"

text \<open>A record from a free mutex: it is written, or there is no file.\<close>

lemma log_inv_rotate: "log_inv lg \<Longrightarrow> log_file lg \<noteq> None \<Longrightarrow> log_inv (rotate_log_if_needed env lg)"
  by (simp add: log_inv_def)

lemma log_record_outcome:
  assumes "log_inv lg" and "\<And>x. \<exists>s. rec x = Inr s"
  shows "(log_file lg = None \<and> log_record env rec lg = Inl Null_Pointer) \<or>
     (\<exists>lg'. log_record env rec lg = Inr lg' \<and> log_inv lg')"
proof -
  obtain s where s: "rec (lg\<lparr>log_mutex := \<lparr>kind = Normal, depth = 1\<rparr>\<rparr>) = Inr s" using assms(2) by blast
  show ?thesis
  proof (cases "log_file lg")
    case None
    with s show ?thesis by (simp add: log_record_eq [OF assms(1)] write_log_def)
  next
    case (Some p)
    then have "log_inv (lg\<lparr>disk := x\<rparr>)" for x using assms(1) by (simp add: log_inv_def)
    with s Some show ?thesis
      by (simp add: log_record_eq [OF assms(1)] write_log_def log_inv_rotate)
  qed
qed

lemma init_outcome:
  assumes "log_inv lg"
  shows "(\<exists>r lg'. logger_init env path l i lg = Inr (r, lg') \<and> log_inv lg')"
proof (cases "e_opens env path")
  case False
  with assms show ?thesis
    by (auto simp: logger_init_def log_lock_free fopen_append_def log_unlock_def mutex_unlock_def
        log_inv_def log_lock_def mutex_lock_def split: option.splits)
next
  case True
  define lg1 where "lg1 = lg\<lparr>
     made_dirs := (case dir_of path of None \<Rightarrow> made_dirs lg | Some d \<Rightarrow> d # made_dirs lg),
     log_file := Some path, disk := (disk lg)(path \<mapsto> contents (disk lg) path),
     log_path := take 255 path, current_level := l, structured_mode := i, initialized := True,
     log_mutex := \<lparr>kind = Normal, depth = 0\<rparr>\<rparr>"
  have inv: "log_inv lg1" and opn: "log_file lg1 = Some path" and init: "initialized lg1"
    using assms by (simp_all add: log_inv_def lg1_def)
  have "log_mutex lg = \<lparr>kind = Normal, depth = 0\<rparr>" using assms by (simp add: log_inv_def)
  then have "logger_init env path l i lg =
      bind_outcome (log_info env (init_message path l i) lg1) (\<lambda>lg. Inr (0, lg))"
    using True
    by (simp add: logger_init_def log_lock_def mutex_lock_def log_unlock_def
        mutex_unlock_def fopen_append_def lg1_def strncpy_c_def split: option.splits)
  then show ?thesis
    using opn inv by (auto simp: log_at_outcome [OF inv] write_log_def init bind_outcome_def
        intro!: log_inv_rotate) (auto simp: log_inv_def)
qed

lemma log_lock_set:
  assumes "log_inv lg"
  shows "logger_set_level l lg = Inr (lg\<lparr>current_level := l\<rparr>)"
    and "logger_set_structured_mode i lg = Inr (lg\<lparr>structured_mode := i\<rparr>)"
proof -
  have "log_mutex lg = \<lparr>kind = Normal, depth = 0\<rparr>" using assms by (simp add: log_inv_def)
  then show "logger_set_level l lg = Inr (lg\<lparr>current_level := l\<rparr>)"
    "logger_set_structured_mode i lg = Inr (lg\<lparr>structured_mode := i\<rparr>)"
    by (cases lg; simp add: logger_set_level_def logger_set_structured_mode_def log_lock_def
        mutex_lock_def log_unlock_def mutex_unlock_def)+
qed

lemma cleanup_outcome:
  assumes "log_inv lg"
  shows "logger_cleanup env lg =
     (if log_file lg \<noteq> None \<and> current_level lg \<le> LOG_INFO then Inl Deadlock
      else Inr (lg\<lparr>log_file := None, initialized := False\<rparr>))"
proof -
  let ?lg = "lg\<lparr>log_mutex := \<lparr>kind = Normal, depth = 1\<rparr>\<rparr>"
  have m: "log_mutex lg = \<lparr>kind = Normal, depth = 0\<rparr>" using assms by (simp add: log_inv_def)
  have "log_info env s ?lg = (if current_level lg \<le> LOG_INFO then Inl Deadlock else Inr ?lg)"
    if "log_file lg \<noteq> None" for s
    using that assms by (simp add: log_inv_def log_at_def log_message_def log_record_def log_lock_def
        mutex_lock_def not_less [symmetric])
  moreover have "lg\<lparr>log_file := None, initialized := False, log_mutex := \<lparr>kind = Normal, depth = 0\<rparr>\<rparr> =
      lg\<lparr>log_file := None, initialized := False\<rparr>"
    using m by (cases lg) simp
  moreover have "lg\<lparr>initialized := False, log_mutex := \<lparr>kind = Normal, depth = 0\<rparr>\<rparr> =
      lg\<lparr>log_file := None, initialized := False\<rparr>" if "log_file lg = None"
    using m that by (cases lg) simp
  ultimately show ?thesis
    by (cases "log_file lg")
      (simp_all add: logger_cleanup_def log_lock_free [OF assms] log_unlock_def mutex_unlock_def)
qed

text \<open>What each operation can end in, from a state with a free mutex.\<close>

lemma log_exec_outcome:
  assumes "log_inv lg"
  shows "(\<exists>lg'. log_exec env ev lg = Inr lg' \<and> log_inv lg') \<or>
     (log_file lg = None \<and> log_exec env ev lg = Inl Null_Pointer) \<or>
     (ev = Cleanup \<and> log_file lg \<noteq> None \<and> current_level lg \<le> LOG_INFO \<and>
      log_exec env ev lg = Inl Deadlock)"
proof (cases ev)
  case (Log l m)
  have "\<exists>s. message_record env (structured_mode x) l logger_file (fst (place l)) (snd (place l)) m = Inr s"
    for x by (simp add: message_record_text)
  then show ?thesis
    using log_record_outcome [OF assms, of "\<lambda>lg. message_record env (structured_mode lg) l logger_file
        (fst (place l)) (snd (place l)) m" env] assms Log
    by (auto simp: log_at_def log_message_def)
next
  case (Log_Context l part func line m)
  have "\<exists>s. context_record env (structured_mode x) l part func line m = Inr s" for x
    by (simp add: context_record_def Let_def escape_message)
  then show ?thesis
    using log_record_outcome [OF assms, of "\<lambda>lg. context_record env (structured_mode lg) l part func line m" env]
      assms Log_Context
    by (auto simp: log_with_context_def)
next
  case (Log_Perf op dur)
  show ?thesis
    using log_record_outcome [OF assms, of "\<lambda>lg. Inr (performance_record env (structured_mode lg) op dur)"]
      assms Log_Perf by (auto simp: log_performance_def)
next
  case (Init path l i)
  then show ?thesis using init_outcome [OF assms] by (metis bind_outcome_simps(1) case_prod_conv log_exec.simps(6))
next
  case Cleanup
  then show ?thesis using assms by (auto simp: cleanup_outcome log_inv_def)
qed (use assms in \<open>auto simp: log_lock_set [OF assms] log_inv_def\<close>)

interpretation lo: machine log_step "logger_ctx d" log_inv for d
proof
  show "log_inv (logger_ctx d)" by (simp add: log_inv_def logger_ctx_def)
  show "log_inv (log_step lg e)" if "log_inv lg" for lg e
    using log_exec_outcome [OF that, of "fst e" "snd e"] that by (auto simp: log_step_def)
qed

section \<open>Properties\<close>

text \<open>C7. Starting the logger on any path of at most 255 characters and logging any messages at
  any levels, plain or structured, always succeeds, and leaves exactly what a bounded store
  of logs holds: each message at or above the level is appended once, in order, as one whole
  record; when the log has reached ten megabytes it becomes the newest of the old logs, and only
  the oldest beyond five is dropped.\<close>

theorem logging_refines_store:
  assumes "length path \<le> 255" and "gapless path d" and "e_opens env path"
    and "\<forall>(e, l, m) \<in> set msgs. e_opens e path"
  shows "\<exists>lg lg'. logger_init env path level structured (logger_ctx d) = Inr (0, lg) \<and>
     log_all msgs lg = Inr lg' \<and>
     store lg' = foldl (spec_log level structured) (contents d path, archives path d)
       ((env, LOG_INFO, init_message path level structured) # msgs)"
  using logger_init_opens [where structured = structured and level = level, OF assms(1,3,2)]
    log_all_refines [of _ msgs] assms(4) by force

text \<open>C25. A structured record is one line whatever the message is, and a reader of JSON finds in
  its message field the message as logged: every printable character, newline, carriage return
  and tab of its first 2047 characters, and the field ends where the logger ended it, so no
  message can forge another field or record.\<close>

theorem structured_record_is_one_line:
  assumes "structured \<noteq> 0"
  shows "\<exists>l pre post. record_text structured env level m = l @ [NL] \<and> NL \<notin> set l \<and>
     record_text structured env level m =
       pre @ dquote # ''message'' @ [dquote] @ '':'' @ dquote # escaped (message_buffer m) @ dquote # post \<and>
     read_string (escaped (message_buffer m) @ dquote # post) = Some (filter kept (take 2047 m), post)"
proof -
  let ?em = "escaped (message_buffer m)"
  let ?head = "[str_field ''timestamp'' (e_time env), str_field ''level'' (level_name level),
      str_field ''file'' logger_file, num_field ''line'' (show_int (fst (place level))),
      str_field ''function'' (snd (place level))]"
  let ?tail = "[num_field ''pid'' (show_int (e_pid env)), str_field ''thread'' (''0x'' @ e_thread env)]"
  have rec: "record_text structured env level m = json_record (?head @ str_field ''message'' ?em # ?tail)"
    using assms by (simp add: record_text_def message_record_def Let_def escape_message)
  have "NL \<notin> set ?em"
    using esc_char_no_newline by (auto simp: escaped_eq message_buffer_length)
  moreover have "NL \<notin> set (level_name level) \<union> set (snd (place level)) \<union> set logger_file"
    by (cases level; hypsubst; code_simp)
  moreover have "NL \<notin> set (show_int i)" for i
    using show_int_no_space [of i] by (auto simp: isspace_c_def)
  ultimately have "\<forall>f \<in> set (?head @ str_field ''message'' ?em # ?tail). NL \<notin> set f"
    using timestamp_no_newline thread_no_newline by (simp add: str_field_def num_field_def dquote_def)
  then obtain l where l: "json_record (?head @ str_field ''message'' ?em # ?tail) = l @ [NL]" "NL \<notin> set l"
    using json_record_line by blast
  define pre where "pre = ''{'' @ concat (map (\<lambda>f. f @ '','') ?head)"
  define post where "post = '','' @ commas ?tail @ ''}'' @ [NL]"
  have "json_record (?head @ str_field ''message'' ?em # ?tail) =
      pre @ dquote # ''message'' @ [dquote] @ '':'' @ dquote # ?em @ dquote # post"
    by (simp add: json_record_def pre_def post_def str_field_def)
  moreover have "read_string (?em @ dquote # post) = Some (filter kept (take 2047 m), post)"
    using read_string_escaped [of "message_buffer m" post]
    by (simp add: escaped_eq message_buffer_length) (simp add: message_buffer_def snprintf_c_def MAX_LOG_LENGTH_def)
  ultimately show ?thesis using rec l by metis
qed



section \<open>Witnesses\<close>

definition any_env :: log_env where
  "any_env = \<lparr>e_local = \<lparr>tm_year = 125, tm_mon = 0, tm_mday = 1, tm_hour = 0, tm_min = 0, tm_sec = 0\<rparr>, e_pid = 7,
     e_self = 1, e_opens = \<lambda>_. True\<rparr>"

lemma any_env_texts: "e_time any_env = ''2025-01-01 00:00:00''" "e_thread any_env = ''1''" "e_pid any_env = 7"
  by code_simp+

theorem logging_refines_store_witness:
  "\<exists>lg lg'. logger_init any_env ''logs/m.log'' LOG_INFO 0 (logger_ctx (\<lambda>_. None)) = Inr (0, lg) \<and>
     log_all [(any_env, LOG_DEBUG, ''x''), (any_env, LOG_WARN, ''y'')] lg = Inr lg' \<and>
     store lg' = (record_text 0 any_env LOG_INFO (init_message ''logs/m.log'' LOG_INFO 0) @
                  record_text 0 any_env LOG_WARN ''y'', [])"
proof -
  have num: "show_int 220 = ''220''" "show_int 227 = ''227''" "show_int 7 = ''7''" by code_simp+
  have "length (record_text 0 any_env LOG_INFO (init_message ''logs/m.log'' LOG_INFO 0)) < 1000"
    "length (record_text 0 any_env LOG_WARN ''y'') < 1000"
    by (simp_all add: record_text_def message_record_def message_buffer_def snprintf_c_def num
        MAX_LOG_LENGTH_def init_message_def any_env_texts bracket_def level_name_def
        level_strings_def logger_file_def Let_def)
  moreover have "\<not> LOG_INFO < LOG_INFO" "LOG_DEBUG < LOG_INFO" "\<not> LOG_WARN < LOG_INFO"
    by (simp_all add: less_log_level_def)
  moreover have "archives p (\<lambda>_. None) = []" for p
    by (simp add: archives_def archive_def LOG_FILES_TO_KEEP_def upt_rec)
  ultimately show ?thesis
    using logging_refines_store [of "''logs/m.log''" "\<lambda>_. None" any_env
        "[(any_env, LOG_DEBUG, ''x''), (any_env, LOG_WARN, ''y'')]" LOG_INFO 0]
    by (simp add: gapless_def archive_def any_env_def spec_append_def contents_def LOG_FILE_SIZE_LIMIT_def Let_def)
qed

theorem structured_record_is_one_line_witness:
  "\<exists>l pre post. record_text 1 any_env LOG_WARN ''a'' = l @ [NL] \<and> NL \<notin> set l \<and>
     record_text 1 any_env LOG_WARN ''a'' =
       pre @ dquote # ''message'' @ [dquote] @ '':'' @ dquote # escaped (message_buffer ''a'') @ dquote # post \<and>
     read_string (escaped (message_buffer ''a'') @ dquote # post) = Some (filter kept (take 2047 ''a''), post)"
  by (rule structured_record_is_one_line) simp

definition full_text :: string where
  "full_text = replicate LOG_FILE_SIZE_LIMIT CHR ''x''"

definition full_log :: logger where
  "full_log = \<lparr>log_file = Some ''l'', log_path = ''l'', current_level = LOG_INFO,
     log_mutex = \<lparr>kind = Normal, depth = 0\<rparr>, initialized = True, structured_mode = 0,
     made_dirs = [], disk = [''l'' \<mapsto> full_text]\<rparr>"


end
