(* ===== verification/LoggerThreads.thy ===== *)
theory LoggerThreads
  imports Logger CriticalSections
begin

text \<open>
  Threads that log at the same time: the logging functions, \<open>logger_set_level\<close>,
  \<open>logger_set_structured_mode\<close> and \<open>logger_cleanup\<close> of \<^verbatim>\<open>04-integration/logger.c\<close> at the grain of
  \<open>log_mutex\<close>. A call tests the level before it takes the mutex; after that every character
  that \<open>fprintf\<close> puts out, the test of the size, every \<open>rename\<close> and the \<open>fopen\<close> of a rotation is a step
  of its own (\<open>log_turn\<close>). Who holds the mutex is \<open>lt_owner\<close>; the field of \<open>logger\<close> stays free.
\<close>

section \<open>One call, step by step\<close>

datatype log_call =
    Message log_env log_level string int string string
  | Context log_env log_level string string int string
  | Performance log_env string string
  | Set_Level log_level
  | Set_Mode int
  | Cleanup log_env

text \<open>The test before the mutex is taken.\<close>

fun passes :: "log_call \<Rightarrow> logger \<Rightarrow> bool" where
  "passes (Message env level file line func message) lg \<longleftrightarrow> initialized lg \<and> \<not> level < current_level lg"
| "passes (Context env level component func line message) lg \<longleftrightarrow> initialized lg \<and> \<not> level < current_level lg"
| "passes (Performance env op duration) lg \<longleftrightarrow> initialized lg \<and> \<not> LOG_DEBUG < current_level lg"
| "passes _ lg \<longleftrightarrow> True"

text \<open>The record of a call and its surroundings.\<close>

fun record_of :: "log_call \<Rightarrow> int \<Rightarrow> (log_env \<times> string outcome) option" where
  "record_of (Message env level file line func message) mode =
     Some (env, message_record env mode level file line func message)"
| "record_of (Context env level component func line message) mode =
     Some (env, context_record env mode level component func line message)"
| "record_of (Performance env op duration) mode = Some (env, Inr (performance_record env mode op duration))"
| "record_of _ mode = None"

datatype log_phase =
    Idle
  | Tested log_call             \<comment> \<open>at the lock\<close>
  | Entered log_call            \<comment> \<open>has the mutex\<close>
  | Printing log_env string     \<comment> \<open>in \<open>fprintf\<close>, with what is still to be put out\<close>
  | Sizing log_env              \<comment> \<open>in \<open>rotate_log_if_needed\<close>\<close>
  | Renaming log_env nat        \<comment> \<open>in its loop\<close>
  | Moving log_env              \<comment> \<open>at the rename of the current log\<close>
  | Opening log_env             \<comment> \<open>at \<open>fopen\<close>\<close>
  | Closing                     \<comment> \<open>in \<open>logger_cleanup\<close>, after the file\<close>
  | Waiting_For_Itself          \<comment> \<open>at the lock of a mutex the thread holds\<close>
  | Leaving                     \<comment> \<open>at the unlock\<close>

fun log_turn :: "log_phase \<Rightarrow> logger \<Rightarrow> (log_phase \<times> logger) option" where
  "log_turn (Entered (Set_Level level)) lg = Some (Leaving, lg\<lparr>current_level := level\<rparr>)"
| "log_turn (Entered (Set_Mode mode)) lg = Some (Leaving, lg\<lparr>structured_mode := mode\<rparr>)"
| "log_turn (Entered (Cleanup env)) lg =
     (if log_file lg = None then Some (Closing, lg)
      else if initialized lg \<and> \<not> LOG_INFO < current_level lg then Some (Waiting_For_Itself, lg)
      else Some (Closing, lg\<lparr>log_file := None\<rparr>))"
| "log_turn (Entered call) lg =
     (case record_of call (structured_mode lg) of
        Some (env, Inr s) \<Rightarrow> Some (Printing env s, lg)
      | _ \<Rightarrow> None)"
| "log_turn (Printing env (c # cs)) lg =
     (case write_log [c] lg of Inl _ \<Rightarrow> None | Inr lg' \<Rightarrow> Some (Printing env cs, lg'))"
| "log_turn (Printing env []) lg = Some (Sizing env, lg)"
| "log_turn (Sizing env) lg =
     (case log_file lg of
        None \<Rightarrow> Some (Leaving, lg)
      | Some p \<Rightarrow>
          if LOG_FILE_SIZE_LIMIT \<le> length (contents (disk lg) p)
          then Some (Renaming env (LOG_FILES_TO_KEEP - 1), lg) else Some (Leaving, lg))"
| "log_turn (Renaming env (Suc i)) lg =
     Some (Renaming env i,
           lg\<lparr>disk := rename_file (numbered (log_path lg) i) (numbered (log_path lg) (Suc i)) (disk lg)\<rparr>)"
| "log_turn (Renaming env 0) lg = Some (Moving env, lg)"
| "log_turn (Moving env) lg =
     Some (Opening env, lg\<lparr>disk := rename_file (log_path lg) (numbered (log_path lg) 0) (disk lg)\<rparr>)"
| "log_turn (Opening env) lg = Some (Leaving, fopen_append env (log_path lg) lg)"
| "log_turn Closing lg = Some (Leaving, lg\<lparr>initialized := False\<rparr>)"
| "log_turn p lg = None"

fun leaving :: "log_phase \<Rightarrow> unit option" where
  "leaving Leaving = Some ()"
| "leaving _ = None"

interpretation logging: critical_section log_turn leaving
proof
  show "leaving p = Some r \<Longrightarrow> log_turn p lg = None" for p r lg
    by (cases p) auto
qed

section \<open>All threads\<close>

record log_threads =
  lt_ctx :: logger
  lt_owner :: "int option"
  lt_phase :: "int \<Rightarrow> log_phase"

definition lt_start :: "logger \<Rightarrow> log_threads" where
  "lt_start lg = \<lparr>lt_ctx = lg, lt_owner = None, lt_phase = (\<lambda>_. Idle)\<rparr>"

datatype lt_event =
  T_Call int log_call | T_Skip int log_call | T_Lock int log_call | T_Turn int | T_Unlock int

fun lt_next :: "log_threads \<Rightarrow> lt_event \<Rightarrow> log_threads option" where
  "lt_next s (T_Call t call) =
     (if lt_phase s t = Idle \<and> passes call (lt_ctx s)
      then Some (s\<lparr>lt_phase := (lt_phase s)(t := Tested call)\<rparr>) else None)"
| "lt_next s (T_Skip t call) = (if lt_phase s t = Idle \<and> \<not> passes call (lt_ctx s) then Some s else None)"
| "lt_next s (T_Lock t call) =
     (if lt_phase s t = Tested call \<and> lt_owner s = None
      then Some (s\<lparr>lt_phase := (lt_phase s)(t := Entered call), lt_owner := Some t\<rparr>) else None)"
| "lt_next s (T_Turn t) =
     (case log_turn (lt_phase s t) (lt_ctx s) of
        None \<Rightarrow> None
      | Some (p, lg) \<Rightarrow> Some (s\<lparr>lt_phase := (lt_phase s)(t := p), lt_ctx := lg\<rparr>))"
| "lt_next s (T_Unlock t) =
     (if lt_phase s t = Leaving then Some (s\<lparr>lt_phase := (lt_phase s)(t := Idle), lt_owner := None\<rparr>) else None)"

section \<open>A call run to its end\<close>

abbreviation logs :: "log_phase \<Rightarrow> logger \<Rightarrow> logger \<Rightarrow> bool" where
  "logs p lg lg' \<equiv> \<exists>n. completes log_turn leaving n p lg () lg'"

lemma logs_leaving: "logs Leaving lg lg"
  using ends [of leaving Leaving "()" log_turn lg] by auto

lemma logs_turn: "log_turn p lg = Some (p', lg') \<Longrightarrow> logs p' lg' lg'' \<Longrightarrow> logs p lg lg''"
  using goes_on [where turn = log_turn and at_end = leaving] by blast

lemma logs_printing:
  assumes "log_file lg = Some p" and "disk lg p \<noteq> None" and "write_log s lg = Inr lg'" and "logs (Sizing env) lg' lg''"
  shows "logs (Printing env s) lg lg''"
  using assms
proof (induction s arbitrary: lg)
  case Nil
  then have "lg' = lg" by (auto simp: write_log_def contents_def map_upd_triv)
  then show ?case using Nil.prems(4) by (auto intro: logs_turn)
next
  case (Cons c s)
  let ?lg = "lg\<lparr>disk := (disk lg)(p \<mapsto> contents (disk lg) p @ [c])\<rparr>"
  have "write_log s ?lg = Inr lg'"
    using Cons.prems(1,3) by (simp add: write_log_def contents_def)
  then have "logs (Printing env s) ?lg lg''" using Cons.prems by (intro Cons.IH) simp_all
  then show ?case using Cons.prems(1) by (auto simp: write_log_def intro: logs_turn)
qed

lemma logs_renaming:
  "logs (Moving env) (lg\<lparr>disk := rotate_files (log_path lg) i (disk lg)\<rparr>) lg' \<Longrightarrow> logs (Renaming env i) lg lg'"
proof (induction i arbitrary: lg)
  case 0
  then show ?case by (auto intro: logs_turn)
next
  case (Suc i)
  let ?lg = "lg\<lparr>disk := rename_file (numbered (log_path lg) i) (numbered (log_path lg) (Suc i)) (disk lg)\<rparr>"
  have "logs (Renaming env i) ?lg lg'" using Suc.prems by (intro Suc.IH) simp
  then show ?case by (auto intro: logs_turn)
qed

lemma logs_sizing: "logs (Sizing env) lg (rotate_log_if_needed env lg)"
proof (cases "\<exists>p. log_file lg = Some p \<and> LOG_FILE_SIZE_LIMIT \<le> length (contents (disk lg) p)")
  case True
  let ?d = "rotate_files (log_path lg) (LOG_FILES_TO_KEEP - 1) (disk lg)"
  let ?lg = "lg\<lparr>disk := rename_file (log_path lg) (numbered (log_path lg) 0) ?d\<rparr>"
  have "logs (Opening env) ?lg (rotate_log_if_needed env lg)"
    using True by (intro logs_turn [OF _ logs_leaving]) (auto simp: rotate_log_if_needed_def Let_def)
  then have "logs (Moving env) (lg\<lparr>disk := ?d\<rparr>) (rotate_log_if_needed env lg)"
    by (rule logs_turn [rotated]) simp
  from logs_renaming [OF this] show ?thesis
    by (rule logs_turn [rotated]) (use True in auto)
next
  case False
  then show ?thesis
    by (intro logs_turn [OF _ logs_leaving]) (auto simp: rotate_log_if_needed_def split: option.splits)
qed

text \<open>The text a call adds to the log in the mode in which it is formatted, and its effect on the mode and
  the store of logs.\<close>

definition text_of :: "log_call \<Rightarrow> int \<Rightarrow> string" where
  "text_of call mode = (case record_of call mode of Some (_, Inr s) \<Rightarrow> s | _ \<Rightarrow> [])"

fun spec_call :: "int \<times> store \<Rightarrow> log_call \<Rightarrow> int \<times> store" where
  "spec_call (mode, st) (Set_Level level) = (mode, st)"
| "spec_call (mode, st) (Set_Mode mode') = (mode', st)"
| "spec_call (mode, st) (Cleanup env) = (mode, st)"
| "spec_call (mode, st) call = (mode, spec_append (text_of call mode) st)"

text \<open>Calls other than the cleanup, made where the log can be opened again.\<close>

fun call_ok :: "string \<Rightarrow> log_call \<Rightarrow> bool" where
  "call_ok path (Message env level file line func message) \<longleftrightarrow> e_opens env path"
| "call_ok path (Context env level component func line message) \<longleftrightarrow> e_opens env path"
| "call_ok path (Performance env op duration) \<longleftrightarrow> e_opens env path"
| "call_ok path (Cleanup env) \<longleftrightarrow> False"
| "call_ok path _ \<longleftrightarrow> True"

lemma record_of_cases:
  assumes "call_ok path call"
  shows "(\<exists>level. call = Set_Level level) \<or> (\<exists>mode. call = Set_Mode mode) \<or>
    (\<exists>env. record_of call mode = Some (env, Inr (text_of call mode)) \<and> e_opens env path)"
  using assms
  by (cases call)
    (simp_all add: text_of_def message_record_def context_record_def escape_message Let_def)

lemma spec_call_record:
  "record_of call mode = Some (env, Inr s) \<Longrightarrow> spec_call (mode, st) call = (mode, spec_append s st)"
  by (cases call) (simp_all add: text_of_def)

lemma entered_record:
  "record_of call (structured_mode lg) = Some (env, Inr s) \<Longrightarrow>
     log_turn (Entered call) lg = Some (Printing env s, lg)"
  by (cases call) simp_all

text \<open>A call that has the mutex completes, and does to the store what it should.\<close>

definition keeps :: "int \<times> store \<Rightarrow> string \<Rightarrow> logger \<Rightarrow> bool" where
  "keeps spec path lg \<longleftrightarrow> opened lg \<and> log_path lg = path \<and> (structured_mode lg, store lg) = spec"

lemma logs_record:
  assumes "opened lg" and "e_opens env (log_path lg)"
  shows "\<exists>lg'. logs (Printing env s) lg lg' \<and>
     keeps (structured_mode lg, spec_append s (store lg)) (log_path lg) lg'"
proof -
  obtain lg1 where lg1: "write_log s lg = Inr lg1" "opened lg1" "store lg1 = (fst (store lg) @ s, snd (store lg))"
      "log_path lg1 = log_path lg" "structured_mode lg1 = structured_mode lg"
    using write_log_opened [OF assms(1), of s] by blast
  have here: "log_file lg = Some (log_path lg)" "disk lg (log_path lg) \<noteq> None"
    using assms(1) by (simp_all add: opened_def)
  note rotated = rotate_store [OF lg1(2) _ refl, of env, unfolded lg1(4), OF assms(2)]
  have "keeps (structured_mode lg, spec_append s (store lg)) (log_path lg) (rotate_log_if_needed env lg1)"
    using rotated lg1(3-5) spec_append_split [of "store lg" s] by (simp add: keeps_def)
  then show ?thesis using logs_printing [OF here lg1(1) logs_sizing] by blast
qed

lemma opened_frame [simp]:
  "opened (lg\<lparr>current_level := level\<rparr>) = opened lg" "opened (lg\<lparr>structured_mode := mode\<rparr>) = opened lg"
  by (simp_all add: opened_def log_inv_def)

lemma store_frame [simp]:
  "store (lg\<lparr>current_level := level\<rparr>) = store lg" "store (lg\<lparr>structured_mode := mode\<rparr>) = store lg"
  by (simp_all add: store_def)

lemma logs_call:
  assumes "keeps spec path lg" and "call_ok path call"
  shows "\<exists>lg'. logs (Entered call) lg lg' \<and> keeps (spec_call spec call) path lg'"
proof -
  have lg: "opened lg" "log_path lg = path" "spec = (structured_mode lg, store lg)"
    using assms(1) by (auto simp: keeps_def)
  consider level where "call = Set_Level level" | mode where "call = Set_Mode mode"
    | env where "record_of call (structured_mode lg) = Some (env, Inr (text_of call (structured_mode lg)))"
        "e_opens env path"
    using record_of_cases [OF assms(2), of "structured_mode lg"] by blast
  then show ?thesis
  proof cases
    case 1
    then have "logs (Entered call) lg (lg\<lparr>current_level := level\<rparr>)" by (auto intro: logs_turn logs_leaving)
    then show ?thesis using lg 1 by (auto simp: keeps_def)
  next
    case 2
    then have "logs (Entered call) lg (lg\<lparr>structured_mode := mode\<rparr>)" by (auto intro: logs_turn logs_leaving)
    then show ?thesis using lg 2 by (auto simp: keeps_def)
  next
    case 3
    obtain lg' where printed: "logs (Printing env (text_of call (structured_mode lg))) lg lg'"
      and kept: "keeps (structured_mode lg, spec_append (text_of call (structured_mode lg)) (store lg)) path lg'"
      using logs_record [OF lg(1), of env "text_of call (structured_mode lg)"] lg(2) 3(2) by auto
    then show ?thesis
      using logs_turn [OF entered_record [OF 3(1)] printed] spec_call_record [OF 3(1), of "store lg"] lg(3)
      by (intro exI [of _ lg']) simp
  qed
qed

section \<open>The invariant\<close>

text \<open>The calls in the order in which they get the mutex, and those of one thread.\<close>

fun got_mutex :: "lt_event \<Rightarrow> (int \<times> log_call) list" where
  "got_mutex (T_Lock t call) = [(t, call)]"
| "got_mutex _ = []"

definition in_order :: "lt_event list \<Rightarrow> (int \<times> log_call) list" where
  "in_order es = concat (map got_mutex es)"

fun begins :: "int \<Rightarrow> lt_event \<Rightarrow> log_call list" where
  "begins t (T_Call u call) = (if u = t then [call] else [])"
| "begins t _ = []"

definition begun :: "int \<Rightarrow> lt_event list \<Rightarrow> log_call list" where
  "begun t es = concat (map (begins t) es)"

definition calls_by :: "int \<Rightarrow> (int \<times> log_call) list \<Rightarrow> log_call list" where
  "calls_by t cs = map snd (filter (\<lambda>(u, _). u = t) cs)"

fun at_lock :: "log_phase \<Rightarrow> log_call list" where
  "at_lock (Tested call) = [call]"
| "at_lock _ = []"

fun within :: "log_phase \<Rightarrow> bool" where
  "within Idle = False"
| "within (Tested call) = False"
| "within _ = True"

lemma order_snoc [simp]:
  "in_order [] = []" "in_order (es @ [e]) = in_order es @ got_mutex e"
  "begun t [] = []" "begun t (es @ [e]) = begun t es @ begins t e"
  "calls_by t [] = []" "calls_by t (cs @ [(u, call)]) = calls_by t cs @ (if u = t then [call] else [])"
  by (simp_all add: in_order_def begun_def calls_by_def)

definition lt_inv :: "string \<Rightarrow> int \<times> store \<Rightarrow> lt_event list \<Rightarrow> log_threads \<Rightarrow> bool" where
  "lt_inv path spec es s \<longleftrightarrow>
     (\<forall>t. within (lt_phase s t) \<longleftrightarrow> lt_owner s = Some t) \<and>
     (\<forall>t. begun t es = calls_by t (in_order es) @ at_lock (lt_phase s t)) \<and>
     (\<forall>t call. lt_phase s t = Tested call \<longrightarrow> call_ok path call) \<and>
     (case lt_owner s of
        None \<Rightarrow> keeps (foldl spec_call spec (map snd (in_order es))) path (lt_ctx s)
      | Some t \<Rightarrow> \<exists>lg. logs (lt_phase s t) (lt_ctx s) lg \<and>
          keeps (foldl spec_call spec (map snd (in_order es))) path lg)"

lemma log_turn_within: "log_turn p lg = Some (p', lg') \<Longrightarrow> within p \<and> within p' \<and> at_lock p' = []"
  by (cases "(p, lg)" rule: log_turn.cases) (auto split: if_splits option.splits sum.splits prod.splits)

lemma within_at_lock [simp]: "within p \<Longrightarrow> at_lock p = []"
  by (cases p) simp_all

lemma lt_next_inv:
  assumes "lt_inv path spec es s" and "lt_next s e = Some s'" and "\<And>t call. e = T_Call t call \<Longrightarrow> call_ok path call"
  shows "lt_inv path spec (es @ [e]) s'"
proof (cases e)
  case (T_Call t call)
  then have "lt_owner s \<noteq> Some t" "lt_phase s t = Idle" "s' = s\<lparr>lt_phase := (lt_phase s)(t := Tested call)\<rparr>"
    using assms(1,2) by (auto simp: lt_inv_def split: if_splits)
      (metis within.simps(1))
  then show ?thesis
    using assms(1,3) T_Call by (auto simp: lt_inv_def split: option.splits)
next
  case (T_Skip t call)
  then show ?thesis using assms(1,2) by (auto simp: lt_inv_def split: if_splits option.splits)
next
  case (T_Lock t call)
  then have t: "lt_owner s = None" "lt_phase s t = Tested call"
      "s' = s\<lparr>lt_phase := (lt_phase s)(t := Entered call), lt_owner := Some t\<rparr>"
    using assms(2) by (auto split: if_splits)
  then have "keeps (foldl spec_call spec (map snd (in_order es))) path (lt_ctx s)" "call_ok path call"
    using assms(1) by (auto simp: lt_inv_def)
  from logs_call [OF this] show ?thesis
    using assms(1) t by (auto simp: lt_inv_def T_Lock)
next
  case (T_Turn t)
  then obtain p lg where t: "log_turn (lt_phase s t) (lt_ctx s) = Some (p, lg)"
      "s' = s\<lparr>lt_phase := (lt_phase s)(t := p), lt_ctx := lg\<rparr>"
    using assms(2) by (auto split: option.splits)
  note inside = log_turn_within [OF t(1)]
  then have owner: "lt_owner s = Some t" using assms(1) by (auto simp: lt_inv_def)
  then obtain n lg' where "completes log_turn leaving n (lt_phase s t) (lt_ctx s) () lg'"
      "keeps (foldl spec_call spec (map snd (in_order es))) path lg'"
    using assms(1) by (auto simp: lt_inv_def)
  then have "logs p lg lg'" "keeps (foldl spec_call spec (map snd (in_order es))) path lg'"
    using logging.completes_turn [OF _ t(1)] by blast+
  then show ?thesis
    using assms(1) t inside owner by (auto simp: lt_inv_def T_Turn)
next
  case (T_Unlock t)
  then have t: "lt_phase s t = Leaving" "s' = s\<lparr>lt_phase := (lt_phase s)(t := Idle), lt_owner := None\<rparr>"
    using assms(2) by (auto split: if_splits)
  then have "lt_owner s = Some t" using assms(1) by (auto simp: lt_inv_def)
  then show ?thesis
    using assms(1) t by (auto simp: lt_inv_def T_Unlock logging.completes_at_end)
qed

lemma run_lt_inv:
  assumes "run_events lt_next (lt_start lg) es = Some s" and "opened lg"
    and "\<forall>t call. T_Call t call \<in> set es \<longrightarrow> call_ok (log_path lg) call"
  shows "lt_inv (log_path lg) (structured_mode lg, store lg) es s"
proof -
  have start: "lt_inv (log_path lg) (structured_mode lg, store lg) [] (lt_start lg)"
    using assms(2) by (simp add: lt_inv_def lt_start_def keeps_def)
  have "(\<forall>t call. T_Call t call \<in> set es \<longrightarrow> call_ok (log_path lg) call) \<longrightarrow>
      lt_inv (log_path lg) (structured_mode lg, store lg) es s"
    by (rule run_events_inv [OF _ _ assms(1)]) (use start in \<open>auto intro: lt_next_inv\<close>)
  then show ?thesis using assms(3) by blast
qed

section \<open>Properties\<close>

text \<open>C9. Any number of threads log at once through an open log, and change its level and mode, while
  every character put out and every step of a rotation may have others in between: the calls take
  effect one after the other, in the order in which they get the mutex and in which each thread
  made them. Whenever the mutex is free, the store of logs holds their records whole and in that
  order, and the thread that has the mutex can always go on.\<close>

theorem records_never_mix:
  assumes "opened lg" and "run_events lt_next (lt_start lg) es = Some s"
    and "\<forall>t call. T_Call t call \<in> set es \<longrightarrow> call_ok (log_path lg) call"
  shows "(lt_owner s = None \<longrightarrow> (structured_mode (lt_ctx s), store (lt_ctx s)) =
       foldl spec_call (structured_mode lg, store lg) (map snd (in_order es))) \<and>
    (\<forall>t. begun t es = calls_by t (in_order es) @ at_lock (lt_phase s t)) \<and>
    (\<forall>t. lt_owner s = Some t \<longrightarrow> lt_next s (T_Turn t) \<noteq> None \<or> lt_next s (T_Unlock t) \<noteq> None)"
proof -
  have inv: "lt_inv (log_path lg) (structured_mode lg, store lg) es s"
    by (rule run_lt_inv [OF assms(2,1,3)])
  have "lt_next s (T_Turn t) \<noteq> None \<or> lt_next s (T_Unlock t) \<noteq> None" if "lt_owner s = Some t" for t
  proof -
    have "\<exists>lg'. logs (lt_phase s t) (lt_ctx s) lg'" using inv that by (auto simp: lt_inv_def)
    then obtain n lg' where "completes log_turn leaving n (lt_phase s t) (lt_ctx s) () lg'" by blast
    then show ?thesis
    proof cases
      case ends
      then have "lt_phase s t = Leaving" by (cases "lt_phase s t") simp_all
      then show ?thesis by simp
    qed auto
  qed
  moreover have "lt_owner s = None \<longrightarrow> (structured_mode (lt_ctx s), store (lt_ctx s)) =
      foldl spec_call (structured_mode lg, store lg) (map snd (in_order es))"
    using inv by (auto simp: lt_inv_def keeps_def)
  moreover have "\<forall>t. begun t es = calls_by t (in_order es) @ at_lock (lt_phase s t)"
    using inv by (simp add: lt_inv_def)
  ultimately show ?thesis by blast
qed

text \<open>Two threads: one is in the middle of its record when the other calls.\<close>

definition small_log :: logger where
  "small_log = (logger_ctx (\<lambda>p. if p = ''m'' then Some [] else None))
     \<lparr>log_file := Some ''m'', log_path := ''m'', initialized := True, current_level := LOG_WARN\<rparr>"

definition perf :: log_call where "perf = Performance any_env ''op'' ''1.000''"

lemma small_log_opened: "opened small_log"
  by (simp add: opened_def small_log_def log_inv_def logger_ctx_def gapless_def archive_def numbered_def
      snprintf_c_def)

definition two_calls :: "lt_event list" where
  "two_calls = [T_Call 1 (Set_Level LOG_DEBUG), T_Lock 1 (Set_Level LOG_DEBUG), T_Turn 1, T_Unlock 1,
     T_Call 1 perf, T_Lock 1 perf, T_Turn 1, T_Turn 1, T_Turn 1, T_Call 2 (Set_Mode 1)]"

lemmas small_run = lt_start_def small_log_def logger_ctx_def perf_def less_log_level_def any_env_texts
  performance_record_def message_record_def write_log_def contents_def bracket_def

theorem records_never_mix_witness:
  "\<exists>s. run_events lt_next (lt_start small_log) two_calls = Some s \<and> contents (disk (lt_ctx s)) ''m'' = ''[2'' \<and>
     lt_phase s 2 = Tested (Set_Mode 1) \<and> in_order two_calls = [(1, Set_Level LOG_DEBUG), (1, perf)] \<and>
     (lt_next s (T_Turn 1) \<noteq> None \<or> lt_next s (T_Unlock 1) \<noteq> None)"
proof -
  have "map_option (\<lambda>s. (lt_owner s, lt_phase s 2, contents (disk (lt_ctx s)) ''m''))
      (run_events lt_next (lt_start small_log) two_calls) = Some (Some 1, Tested (Set_Mode 1), ''[2'')"
    by (simp add: two_calls_def small_run)
  then obtain s where s: "run_events lt_next (lt_start small_log) two_calls = Some s" "lt_owner s = Some 1"
      "lt_phase s 2 = Tested (Set_Mode 1)" "contents (disk (lt_ctx s)) ''m'' = ''[2''"
    by auto
  have "\<forall>t call. T_Call t call \<in> set two_calls \<longrightarrow> call_ok (log_path small_log) call"
    by (auto simp: two_calls_def perf_def any_env_def)
  from records_never_mix [OF small_log_opened s(1) this] s show ?thesis
    by (intro exI [of _ s]) (simp add: in_order_def two_calls_def del: lt_next.simps)
qed

text \<open>A call that is at the lock while another thread cleans up.\<close>

definition late_calls :: "lt_event list" where
  "late_calls = [T_Call 1 (Message any_env LOG_ERROR ''f'' 1 ''g'' ''late''), T_Call 2 (Cleanup any_env),
     T_Lock 2 (Cleanup any_env), T_Turn 2, T_Turn 2, T_Unlock 2,
     T_Lock 1 (Message any_env LOG_ERROR ''f'' 1 ''g'' ''late''), T_Turn 1]"


end
