(* ===== verification/IpcMessages.thy ===== *)
theory IpcMessages
  imports CLib
begin

text \<open>
  The structure \<open>ipc_message_t\<close> of \<^verbatim>\<open>src/04-integration/ipc_handler.h\<close> and the bytes it is in memory,
  which the handler writes to the pipe and reads from it.

  The layout is that of the System V ABI for x86-64 and of AArch64 under Linux: numbers little endian,
  \<open>int\<close> and \<open>uint32_t\<close> of four bytes, \<open>time_t\<close> of eight on a boundary of eight, with bytes of no
  meaning in the gap before it. The sizes of the two arrays are those of the missing header.
\<close>

section \<open>Numbers as bytes\<close>

fun le_bytes :: "nat \<Rightarrow> nat \<Rightarrow> char list" where
  "le_bytes 0 v = []"
| "le_bytes (Suc n) v = char_of (v mod 256) # le_bytes n (v div 256)"

fun le_val :: "char list \<Rightarrow> nat" where
  "le_val [] = 0"
| "le_val (c # cs) = of_char c + 256 * le_val cs"

lemma length_le_bytes [simp]: "length (le_bytes n v) = n"
  by (induction n arbitrary: v) simp_all

lemma le_val_bytes: "v < 256 ^ n \<Longrightarrow> le_val (le_bytes n v) = v"
proof (induction n arbitrary: v)
  case (Suc n)
  then have "v div 256 < 256 ^ n" by (simp add: less_mult_imp_div_less mult.commute)
  then show ?case by (simp add: Suc.IH of_char_of take_bit_eq_mod)
qed simp

definition word_bytes :: "nat \<Rightarrow> 'a :: len word \<Rightarrow> char list" where
  "word_bytes n w = le_bytes n (unat w)"

definition bytes_word :: "char list \<Rightarrow> 'a :: len word" where
  "bytes_word bs = of_nat (le_val bs)"

lemma length_word_bytes [simp]: "length (word_bytes n w) = n"
  by (simp add: word_bytes_def)

lemma bytes_word_bytes: "LENGTH('a :: len) \<le> 8 * n \<Longrightarrow> bytes_word (word_bytes n (w :: 'a word)) = w"
proof -
  assume "LENGTH('a) \<le> 8 * n"
  then have "(2 :: nat) ^ LENGTH('a) \<le> 2 ^ (8 * n)" by (intro power_increasing) auto
  also have "\<dots> = 256 ^ n" by (simp add: power_mult)
  finally have "unat w < 256 ^ n" using unsigned_less [of w, where ?'a = nat] by (rule order.strict_trans2 [rotated])
  then show ?thesis by (simp add: bytes_word_def word_bytes_def le_val_bytes)
qed

section \<open>Messages\<close>

datatype ipc_message_type = IPC_MSG_COMMAND | IPC_MSG_DATA | IPC_MSG_STATUS | IPC_MSG_ERROR

fun type_code :: "ipc_message_type \<Rightarrow> 32 word" where
  "type_code IPC_MSG_COMMAND = 1"
| "type_code IPC_MSG_DATA = 2"
| "type_code IPC_MSG_STATUS = 3"
| "type_code IPC_MSG_ERROR = 4"

text \<open>The type is kept as its number, because what is read from a pipe may be any. The arrays and the
  gap are bytes.\<close>

record ipc_message =
  m_type :: "32 word"
  m_length :: "32 word"
  m_room :: "char list"
  m_data :: "char list"
  m_gap :: "char list"
  m_timestamp :: "64 word"

definition gap_size :: "nat \<Rightarrow> nat \<Rightarrow> nat" where
  "gap_size n d = (8 - (8 + n + d) mod 8) mod 8"

definition sizeof_message :: "nat \<Rightarrow> nat \<Rightarrow> nat" where
  "sizeof_message n d = 8 + n + d + gap_size n d + 8"

definition message_ok :: "nat \<Rightarrow> nat \<Rightarrow> ipc_message \<Rightarrow> bool" where
  "message_ok n d m \<longleftrightarrow> length (m_room m) = n \<and> length (m_data m) = d \<and> length (m_gap m) = gap_size n d"

definition message_bytes :: "ipc_message \<Rightarrow> char list" where
  "message_bytes m = word_bytes 4 (m_type m) @ word_bytes 4 (m_length m) @ m_room m @ m_data m @ m_gap m @
     word_bytes 8 (m_timestamp m)"

definition message_of :: "nat \<Rightarrow> nat \<Rightarrow> char list \<Rightarrow> ipc_message" where
  "message_of n d bs = \<lparr>m_type = bytes_word (take 4 bs), m_length = bytes_word (take 4 (drop 4 bs)),
     m_room = take n (drop 8 bs), m_data = take d (drop (8 + n) bs),
     m_gap = take (gap_size n d) (drop (8 + n + d) bs),
     m_timestamp = bytes_word (take 8 (drop (8 + n + d + gap_size n d) bs))\<rparr>"

text \<open>The size is a multiple of eight, as the alignment of the time asks for.\<close>

lemma sizeof_message_aligned: "sizeof_message n d mod 8 = 0"
proof -
  define x where "x = 8 + n + d"
  have "x mod 8 + (8 - x mod 8) = 8" by simp
  moreover have "(x + (8 - x mod 8) mod 8 + 8) mod 8 = (x mod 8 + (8 - x mod 8)) mod 8" by (simp only: mod_simps mod_add_self2)
  ultimately show ?thesis by (simp add: sizeof_message_def gap_size_def x_def)
qed

lemma length_message_bytes: "message_ok n d m \<Longrightarrow> length (message_bytes m) = sizeof_message n d"
  by (simp add: message_ok_def message_bytes_def sizeof_message_def)

interpretation raw: codec message_bytes "message_of n d" "\<lambda>m. m" "message_ok n d" for n d
proof
  fix m
  assume "message_ok n d m"
  then have len: "length (m_room m) = n" "length (m_data m) = d" "length (m_gap m) = gap_size n d"
    by (simp_all add: message_ok_def)
  let ?t = "word_bytes 4 (m_type m)" and ?l = "word_bytes 4 (m_length m)" and ?s = "word_bytes 8 (m_timestamp m)"
  have "message_bytes m = ?t @ ?l @ m_room m @ m_data m @ m_gap m @ ?s" by (simp add: message_bytes_def)
  then have "take 4 (message_bytes m) = ?t" "take 4 (drop 4 (message_bytes m)) = ?l"
    "take n (drop 8 (message_bytes m)) = m_room m" "take d (drop (8 + n) (message_bytes m)) = m_data m"
    "take (gap_size n d) (drop (8 + n + d) (message_bytes m)) = m_gap m"
    "take 8 (drop (8 + n + d + gap_size n d) (message_bytes m)) = ?s"
    using len by (auto simp: drop_append)
  then show "message_of n d (message_bytes m) = m"
    by (simp add: message_of_def bytes_word_bytes)
qed

text \<open>The first bytes of a message over those of another: the type and the length are new as soon as
  eight bytes are.\<close>

lemma message_head:
  assumes "8 \<le> k" and "8 \<le> length (message_bytes m)"
  shows "m_type (message_of n d (take k (message_bytes m) @ bs)) = m_type m"
    and "m_length (message_of n d (take k (message_bytes m) @ bs)) = m_length m"
proof -
  let ?t = "word_bytes 4 (m_type m)" and ?l = "word_bytes 4 (m_length m)"
  obtain rest where "message_bytes m = ?t @ ?l @ rest" by (simp add: message_bytes_def)
  then have "take k (message_bytes m) = ?t @ ?l @ take (k - 8) rest" using assms(1) by simp
  then show "m_type (message_of n d (take k (message_bytes m) @ bs)) = m_type m"
    "m_length (message_of n d (take k (message_bytes m) @ bs)) = m_length m"
    by (simp_all add: message_of_def bytes_word_bytes)
qed

end
