(* ===== verification/IpcHandler.thy ===== *)
theory IpcHandler
  imports Logger IpcMessages
begin

text \<open>
  The connection of the integration daemon to the room generator (a named pipe) and to the
  kernel module (a file of procfs): \<^verbatim>\<open>src/04-integration/ipc_handler.c\<close>.

  The header with the data types of this part, \<^verbatim>\<open>src/commom/data_structures.h\<close>, is empty in
  the repository, so the records here have the fields that the code uses, and what the header
  would fix is a parameter: the sizes of the name, message and response arrays and the numbers of the
  command types. Floating-point values are an abstract type with the operations the code
  applies to them. All of these are in the record \<open>platform\<close>.

  Results of system calls and the contents of files are inputs; outputs are the return value,
  the new state, the calls made and the messages passed to the logger, in order.
\<close>

section \<open>Data\<close>

datatype cmd_code =
    CMD_CREATE_ROOM | CMD_START_ROOM | CMD_STOP_ROOM | CMD_DELETE_ROOM | CMD_SHOW_ROOM
  | CMD_LIST_ROOMS | CMD_STATUS | CMD_OTHER int

record 'f platform =
  name_size :: nat
  message_size :: nat
  resp_message_size :: nat
  resp_data_size :: nat
  cmd_num :: "cmd_code \<Rightarrow> int"
  f_zero :: 'f
  f_atof :: "string \<Rightarrow> 'f"
  f_percent :: "64 word \<Rightarrow> 64 word \<Rightarrow> 'f"
  f_show :: "'f \<Rightarrow> string"

record room_command =
  rc_type :: cmd_code
  rc_name :: string
  rc_param1 :: int
  rc_param2 :: int
  rc_param_str :: string
  rc_time :: int

record 'f monitor_data =
  d_name :: string
  d_cpu :: 'f
  d_mem :: 'f
  d_mem_free :: "64 word"
  d_procs :: int
  d_time :: int
  d_valid :: int

definition zero_data :: "'f platform \<Rightarrow> 'f monitor_data" where
  "zero_data pf = \<lparr>d_name = [], d_cpu = f_zero pf, d_mem = f_zero pf, d_mem_free = 0, d_procs = 0,
     d_time = 0, d_valid = 0\<rparr>"

text \<open>The static variables: the context and the counters of the last processor sample.\<close>

record ipc =
  ipc_ready :: bool
  fifo_mutex :: mutex
  prev_idle :: "64 word"
  prev_total :: "64 word"

definition ipc_ctx :: ipc where
  "ipc_ctx = \<lparr>ipc_ready = False, fifo_mutex = \<lparr>kind = Normal, depth = 0\<rparr>, prev_idle = 0,
     prev_total = 0\<rparr>"

datatype ipc_call =
    Unlink string | Mkfifo string nat | Open_Write string | Open_Read string
  | Write_Bytes "char list" | Read_Bytes nat | Close_It

type_synonym logs = "(log_level \<times> string) list"

type_synonym ipc_result = "(int \<times> ipc \<times> ipc_call list \<times> logs) outcome"

definition FIFO_PATH :: string where "FIFO_PATH = ''/tmp/monitor_fifo''"
definition IPC_BUFFER :: nat where "IPC_BUFFER = 1024"

definition fifo_lock :: "ipc \<Rightarrow> ipc outcome" where
  "fifo_lock st = bind_outcome (mutex_lock (fifo_mutex st)) (\<lambda>m. Inr (st\<lparr>fifo_mutex := m\<rparr>))"

definition fifo_unlock :: "ipc \<Rightarrow> ipc" where
  "fifo_unlock st = st\<lparr>fifo_mutex := mutex_unlock (fifo_mutex st)\<rparr>"

section \<open>Reading numbers\<close>

text \<open>\<open>strtoul\<close> and \<open>%llu\<close>: a sign is allowed and negates modulo \<open>2 ^ 64\<close>; too large values
  are clamped.\<close>

definition ulong_of :: "bool \<Rightarrow> nat \<Rightarrow> 64 word" where
  "ulong_of neg v =
     (if 2 ^ 64 \<le> v then - 1 else if neg then - of_nat v else of_nat v)"

definition scan_lu :: "string \<Rightarrow> (64 word \<times> string) option" where
  "scan_lu s =
     (let (neg, t) = scan_sign (dropWhile isspace_c s);
          ds = takeWhile isdigit_c t
      in if ds = [] then None else Some (ulong_of neg (digits_val ds), drop (length ds) t))"

definition strtoul_c :: "string \<Rightarrow> 64 word" where
  "strtoul_c s = (case scan_lu s of None \<Rightarrow> 0 | Some (v, _) \<Rightarrow> v)"

text \<open>A literal of a format must be there as it is; \<open>None\<close> if it is not.\<close>

definition literal :: "string \<Rightarrow> string \<Rightarrow> string option" where
  "literal w s = (if take (length w) s = w then Some (drop (length w) s) else None)"

text \<open>\<open>n\<close> conversions \<open>%llu\<close> in a row: as many as can be read.\<close>

fun scan_lus :: "nat \<Rightarrow> string \<Rightarrow> 64 word list" where
  "scan_lus 0 s = []"
| "scan_lus (Suc n) s = (case scan_lu s of None \<Rightarrow> [] | Some (v, r) \<Rightarrow> v # scan_lus n r)"

text \<open>The input that \<open>%f\<close> leaves after a number in decimal notation.\<close>

definition scan_f :: "string \<Rightarrow> string option" where
  "scan_f s =
     (let (_, t) = scan_sign (dropWhile isspace_c s);
          ds = takeWhile isdigit_c t;
          u = drop (length ds) t;
          fs = (case u of [] \<Rightarrow> [] | c # cs \<Rightarrow> if c = CHR ''.'' then c # takeWhile isdigit_c cs else []);
          r = drop (length fs) u
      in if ds = [] \<and> length fs < 2 then None
         else case r of
           [] \<Rightarrow> Some []
         | c # cs \<Rightarrow>
             if c = CHR ''e'' \<or> c = CHR ''E'' then
               (let (_, x) = scan_sign cs; es = takeWhile isdigit_c x
                in if es = [] then None else Some (drop (length es) x))
             else Some r)"

section \<open>The pipe\<close>

text \<open>\<open>made\<close> is the result of \<open>mkfifo\<close>: \<open>None\<close> for success, otherwise whether \<open>errno\<close> was
  \<open>EEXIST\<close> and its text.\<close>

definition ipc_init :: "(bool \<times> string) option \<Rightarrow> ipc \<Rightarrow> int \<times> ipc \<times> ipc_call list \<times> logs" where
  "ipc_init made st =
     (let calls = [Unlink FIFO_PATH, Mkfifo FIFO_PATH 438];
          done_ok = (0, st\<lparr>ipc_ready := True\<rparr>, calls, [(LOG_INFO, ''IPC FIFO initialized at '' @ FIFO_PATH)])
      in case made of
           None \<Rightarrow> done_ok
         | Some (eexist, err) \<Rightarrow>
             if \<not> eexist then (-1, st, calls, [(LOG_ERROR, ''Failed to create FIFO: '' @ err)])
             else done_ok)"

definition command_text :: "'f platform \<Rightarrow> room_command \<Rightarrow> string" where
  "command_text pf c =
     ''CMD:'' @ show_int (cmd_num pf (rc_type c)) @ ''|ROOM:'' @ rc_name c @ ''|PARAM1:'' @
     show_int (rc_param1 c) @ ''|PARAM2:'' @ rc_param_str c @ [NL]"

text \<open>
  The bytes given to \<open>write\<close>: as many as the text is long, from a buffer that holds at most
  1023 characters of it and the terminator.
\<close>

definition buffer_bytes :: "string \<Rightarrow> (char list) outcome" where
  "buffer_bytes text =
     (if length text < IPC_BUFFER then Inr text
      else if length text = IPC_BUFFER then Inr (take (IPC_BUFFER - 1) text @ [NUL])
      else Inl Out_Of_Bounds)"

definition ipc_send_command ::
  "'f platform \<Rightarrow> room_command option \<Rightarrow> string option \<Rightarrow> string option \<Rightarrow> ipc \<Rightarrow> ipc_result" where
  "ipc_send_command pf cmd open_err write_err st =
     (if \<not> ipc_ready st then Inr (-1, st, [], [(LOG_ERROR, ''IPC not initialized'')])
      else case cmd of
        None \<Rightarrow> Inr (-1, st, [], [(LOG_ERROR, ''Invalid command pointer'')])
      | Some c \<Rightarrow>
          bind_outcome (fifo_lock st) (\<lambda>st.
            case open_err of
              Some e \<Rightarrow>
                Inr (-1, fifo_unlock st, [Open_Write FIFO_PATH],
                     [(LOG_ERROR, ''Failed to open FIFO for writing: '' @ e)])
            | None \<Rightarrow>
                bind_outcome (buffer_bytes (command_text pf c)) (\<lambda>bytes.
                  let calls = [Open_Write FIFO_PATH, Write_Bytes bytes, Close_It]
                  in case write_err of
                       Some e \<Rightarrow>
                         Inr (-1, fifo_unlock st, calls, [(LOG_ERROR, ''Failed to write to FIFO: '' @ e)])
                     | None \<Rightarrow>
                         Inr (0, fifo_unlock st, calls,
                              [(LOG_DEBUG, ''Sent command: '' @ snprintf_c [] IPC_BUFFER (command_text pf c))]))))"

definition has_prefix :: "string \<Rightarrow> string \<Rightarrow> bool" where
  "has_prefix w s = strncmp_eq s w (length w)"

definition set_name :: "'f platform \<Rightarrow> string \<Rightarrow> 'f monitor_data \<Rightarrow> 'f monitor_data" where
  "set_name pf s d = d\<lparr>d_name := strncpy_c (name_size pf - 1) s\<rparr>"

definition data_token :: "'f platform \<Rightarrow> 'f monitor_data \<Rightarrow> string \<Rightarrow> 'f monitor_data" where
  "data_token pf d token =
     (if has_prefix ''CPU:'' token then d\<lparr>d_cpu := f_atof pf (drop 4 token)\<rparr>
      else if has_prefix ''MEM:'' token then d\<lparr>d_mem := f_atof pf (drop 4 token)\<rparr>
      else if has_prefix ''PROC:'' token then d\<lparr>d_procs := atoi_c (drop 5 token)\<rparr>
      else d)"

text \<open>What the parser makes of a buffer.\<close>

definition parse_data :: "'f platform \<Rightarrow> int \<Rightarrow> string \<Rightarrow> 'f monitor_data \<Rightarrow> 'f monitor_data" where
  "parse_data pf now buffer d =
     (if has_prefix ''DATA:'' buffer then
        (let d = (case strtok_c CHR ''|'' (drop 5 buffer) of
                    [] \<Rightarrow> d
                  | name # tokens \<Rightarrow> foldl (data_token pf) (set_name pf name d) tokens)
         in d\<lparr>d_time := now, d_valid := 1\<rparr>)
      else d)"

definition data_log :: "'f platform \<Rightarrow> 'f monitor_data \<Rightarrow> string" where
  "data_log pf d = ''Received data from LOC GEN: room='' @ d_name d @ '', cpu='' @ f_show pf (d_cpu d) @
     '', mem='' @ f_show pf (d_mem d) @ '', proc='' @ show_int (d_procs d)"

text \<open>\<open>got\<close> is what \<open>read\<close> gives (\<open>None\<close>: an error, \<open>[]\<close>: end of file).\<close>

definition ipc_receive_data ::
  "'f platform \<Rightarrow> int \<Rightarrow> string option \<Rightarrow> char list option \<Rightarrow> 'f monitor_data option \<Rightarrow> ipc \<Rightarrow>
     int \<times> 'f monitor_data option \<times> ipc_call list \<times> logs" where
  "ipc_receive_data pf now open_err got data st =
     (if \<not> ipc_ready st then (-1, data, [], [(LOG_ERROR, ''IPC not initialized'')])
      else case data of
        None \<Rightarrow> (-1, data, [], [(LOG_ERROR, ''Invalid data pointer'')])
      | Some d \<Rightarrow>
          (case open_err of
             Some e \<Rightarrow> (-1, data, [Open_Read FIFO_PATH], [(LOG_ERROR, ''Failed to open FIFO for reading: '' @ e)])
           | None \<Rightarrow>
               (let calls = [Open_Read FIFO_PATH, Read_Bytes (IPC_BUFFER - 1), Close_It]
                in case got of
                     None \<Rightarrow> (-1, data, calls, [])
                   | Some bytes \<Rightarrow>
                       if bytes = [] then (-1, data, calls, [])
                       else
                         (let buffer = cstr (take (IPC_BUFFER - 1) bytes); d' = parse_data pf now buffer d
                          in (0, Some d', calls,
                              if has_prefix ''DATA:'' buffer then [(LOG_DEBUG, data_log pf d')] else [])))))"

section \<open>The system files\<close>

type_synonym proc_files = "string \<Rightarrow> string option"

definition cpu_counters :: "string \<Rightarrow> 64 word list" where
  "cpu_counters line = (case literal ''cpu'' line of None \<Rightarrow> [] | Some r \<Rightarrow> scan_lus 8 r)"

definition get_cpu_usage_from_proc :: "'f platform \<Rightarrow> proc_files \<Rightarrow> ipc \<Rightarrow> 'f \<times> ipc" where
  "get_cpu_usage_from_proc pf fs st =
     (case fs ''/proc/stat'' of
        None \<Rightarrow> (f_zero pf, st)
      | Some content \<Rightarrow>
          if content = [] then (f_zero pf, st)
          else
            (let vs = cpu_counters (cstr (fst (fgets_c 255 content)))
             in if length vs < 8 then (f_zero pf, st)
                else
                  (let current_idle = vs ! 3 + vs ! 4;
                       current_total = sum_list vs;
                       st' = st\<lparr>prev_idle := current_idle, prev_total := current_total\<rparr>
                   in if prev_total st = 0 then (f_zero pf, st')
                      else
                        (let idle_diff = current_idle - prev_idle st;
                             total_diff = current_total - prev_total st
                         in if total_diff = 0 then (f_zero pf, st')
                            else (f_percent pf (total_diff - idle_diff) total_diff, st')))))"

definition get_memory_free_from_proc :: "proc_files \<Rightarrow> 64 word" where
  "get_memory_free_from_proc fs =
     (case fs ''/proc/meminfo'' of
        None \<Rightarrow> 0
      | Some content \<Rightarrow>
          (case find (has_prefix ''MemFree:'') (map cstr (fgets_all 255 content)) of
             None \<Rightarrow> 0
           | Some line \<Rightarrow>
               (case scan_lu (drop 8 line) of None \<Rightarrow> 0 | Some (v, _) \<Rightarrow> v)))"

text \<open>The format \<open>%f %f %f %d/%d\<close>: five conversions or 0.\<close>

definition get_process_count_from_proc :: "proc_files \<Rightarrow> int" where
  "get_process_count_from_proc fs =
     (case fs ''/proc/loadavg'' of
        None \<Rightarrow> 0
      | Some content \<Rightarrow>
          (let line = cstr (fst (fgets_c 255 content))
           in case Option.bind (Option.bind (Option.bind (scan_f line) scan_f) scan_f) scan_d of
                None \<Rightarrow> 0
              | Some (running, r) \<Rightarrow>
                  (case Option.bind (literal ''/'' r) scan_d of None \<Rightarrow> 0 | Some (whole, _) \<Rightarrow> whole)))"

section \<open>The kernel module\<close>

definition kernel_token :: "'f platform \<Rightarrow> 'f monitor_data \<Rightarrow> string \<Rightarrow> 'f monitor_data" where
  "kernel_token pf d token =
     (if has_prefix ''cpu_usage:'' token then d\<lparr>d_cpu := f_atof pf (drop 10 token)\<rparr>
      else if has_prefix ''memory_free:'' token then d\<lparr>d_mem_free := strtoul_c (drop 12 token)\<rparr>
      else if has_prefix ''processes:'' token then d\<lparr>d_procs := atoi_c (drop 10 token)\<rparr>
      else d)"

definition kernel_log :: "string \<Rightarrow> 'f platform \<Rightarrow> 'f monitor_data \<Rightarrow> string" where
  "kernel_log what pf d = what @ ''cpu='' @ f_show pf (d_cpu d) @ '', mem_free='' @
     show_nat (unat (d_mem_free d)) @ '', proc='' @ show_int (d_procs d)"

definition SYSMONITOR :: string where "SYSMONITOR = ''/proc/sysmonitor''"

definition ipc_read_kernel_data ::
  "'f platform \<Rightarrow> proc_files \<Rightarrow> int \<Rightarrow> string option \<Rightarrow> 'f monitor_data option \<Rightarrow> ipc \<Rightarrow>
     int \<times> 'f monitor_data option \<times> ipc \<times> logs" where
  "ipc_read_kernel_data pf fs now room_name data st =
     (case (room_name, data) of
        (Some name, Some _) \<Rightarrow>
          (let d0 = set_name pf name (zero_data pf)
           in case fs SYSMONITOR of
                Some content \<Rightarrow>
                  if content = [] then (0, Some d0, st, [])
                  else
                    (let line = cstr (fst (fgets_c 511 content));
                         d = foldl (kernel_token pf) d0 (strtok_c CHR '' '' line);
                         d = d\<lparr>d_time := now, d_valid := 1\<rparr>
                     in (0, Some d, st, [(LOG_DEBUG, kernel_log ''Read kernel data: '' pf d)]))
              | None \<Rightarrow>
                  (let (cpu, st) = get_cpu_usage_from_proc pf fs st;
                       d = d0\<lparr>d_cpu := cpu, d_mem_free := get_memory_free_from_proc fs,
                              d_procs := get_process_count_from_proc fs, d_time := now, d_valid := 1\<rparr>
                   in (0, Some d, st, [(LOG_DEBUG, kernel_log ''Read system data (fallback): '' pf d)])))
      | _ \<Rightarrow> (-1, data, st, [(LOG_ERROR, ''Invalid parameters for kernel data read'')]))"

text \<open>\<open>opens\<close>: whether the file of the kernel module can be opened for writing. The second
  component is what is written to it when it is closed; the result of that is not checked.\<close>

definition ipc_write_kernel_control ::
  "bool \<Rightarrow> string option \<Rightarrow> int \<Rightarrow> int \<times> string option \<times> logs" where
  "ipc_write_kernel_control opens room_name enable =
     (case room_name of
        None \<Rightarrow> (-1, None, [(LOG_ERROR, ''Invalid room name for kernel control'')])
      | Some name \<Rightarrow>
          if opens then
            (0, Some (show_int (if enable \<noteq> 0 then 1 else 0)),
             [(LOG_INFO, ''Kernel monitoring '' @ (if enable \<noteq> 0 then ''enabled'' else ''disabled'') @
                '' for room: '' @ name)])
          else (-1, None, [(LOG_WARN, ''Cannot write to kernel module (procfs not available)'')]))"

section \<open>Raw messages, status and cleaning up\<close>

text \<open>\<open>written\<close> is the count that \<open>write\<close> returns, and \<open>got\<close> the bytes that \<open>read\<close> finds (\<open>None\<close>: it
  failed), which go into the caller's message byte by byte.\<close>

definition message_bytes_size :: "'f platform \<Rightarrow> nat" where
  "message_bytes_size pf = sizeof_message (name_size pf) (message_size pf)"

definition ipc_send_raw_message ::
  "'f platform \<Rightarrow> ipc_message option \<Rightarrow> bool \<Rightarrow> int \<Rightarrow> ipc \<Rightarrow> (int \<times> ipc \<times> ipc_call list) outcome" where
  "ipc_send_raw_message pf msg opens written st =
     (case msg of
        None \<Rightarrow> Inr (-1, st, [])
      | Some m \<Rightarrow>
          if \<not> ipc_ready st then Inr (-1, st, [])
          else
            bind_outcome (fifo_lock st) (\<lambda>st.
              if \<not> opens then Inr (-1, fifo_unlock st, [Open_Write FIFO_PATH])
              else Inr (if written = int (message_bytes_size pf) then 0 else -1, fifo_unlock st,
                        [Open_Write FIFO_PATH, Write_Bytes (message_bytes m), Close_It])))"

definition ipc_receive_raw_message ::
  "'f platform \<Rightarrow> ipc_message option \<Rightarrow> bool \<Rightarrow> char list option \<Rightarrow> ipc \<Rightarrow> int \<times> ipc_message option \<times> ipc_call list" where
  "ipc_receive_raw_message pf msg opens got st =
     (case msg of
        None \<Rightarrow> (-1, None, [])
      | Some before \<Rightarrow>
          if \<not> ipc_ready st then (-1, msg, [])
          else if \<not> opens then (-1, msg, [Open_Read FIFO_PATH])
          else
            (let size = message_bytes_size pf; calls = [Open_Read FIFO_PATH, Read_Bytes size, Close_It]
             in case got of
                  None \<Rightarrow> (-1, msg, calls)
                | Some bytes \<Rightarrow>
                    (let new = take size bytes;
                         memory = new @ drop (length new) (message_bytes before)
                     in (if length new = size then 0 else -1,
                         Some (message_of (name_size pf) (message_size pf) memory), calls))))"

definition ipc_set_nonblocking :: "int \<Rightarrow> int" where
  "ipc_set_nonblocking enable = 0"

definition ipc_get_status :: "ipc \<Rightarrow> int" where
  "ipc_get_status st = (if ipc_ready st then 1 else 0)"

definition ipc_cleanup :: "ipc \<Rightarrow> (ipc \<times> ipc_call list \<times> logs) outcome" where
  "ipc_cleanup st =
     bind_outcome (fifo_lock st) (\<lambda>st.
       Inr (fifo_unlock (st\<lparr>ipc_ready := False\<rparr>), [Unlink FIFO_PATH],
            [(LOG_INFO, ''IPC cleanup completed'')]))"

section \<open>Lines of data\<close>

lemma has_prefix_append [simp]: "has_prefix w (w @ s)"
  by (simp add: has_prefix_def strncmp_eq_def)

definition field_ok :: "string \<Rightarrow> bool" where
  "field_ok s \<longleftrightarrow> CHR ''|'' \<notin> set s \<and> NUL \<notin> set s"

definition data_line :: "string \<times> string \<times> string \<times> int \<Rightarrow> string" where
  "data_line = (\<lambda>(name, cpu, mem, procs).
     ''DATA:'' @ name @ ''|CPU:'' @ cpu @ ''|MEM:'' @ mem @ ''|PROC:'' @ show_int procs)"

definition data_ok :: "string \<times> string \<times> string \<times> int \<Rightarrow> bool" where
  "data_ok = (\<lambda>(name, cpu, mem, procs).
     name \<noteq> [] \<and> field_ok name \<and> field_ok cpu \<and> field_ok mem \<and> int32 procs)"

lemma show_int_field: "field_ok (show_int i)"
proof -
  have "\<not> isdigit_c CHR ''|''" "\<not> isdigit_c NUL" by code_simp+
  then have "CHR ''|'' \<notin> set (show_nat n)" "NUL \<notin> set (show_nat n)" for n
    using show_nat_digits [of n] by auto
  then show ?thesis by (simp add: field_ok_def show_int_def)
qed

lemma data_tokens:
  assumes "data_ok (name, cpu, mem, procs)"
  shows "strtok_c CHR ''|'' (drop 5 (data_line (name, cpu, mem, procs))) =
     [name, ''CPU:'' @ cpu, ''MEM:'' @ mem, ''PROC:'' @ show_int procs]"
proof -
  let ?b = "CHR ''|''"
  have ok: "name \<noteq> []" "?b \<notin> set name" "?b \<notin> set (''CPU:'' @ cpu)" "?b \<notin> set (''MEM:'' @ mem)"
    "?b \<notin> set (''PROC:'' @ show_int procs)"
    using assms show_int_field [of procs] by (auto simp: data_ok_def field_ok_def)
  have "drop 5 (data_line (name, cpu, mem, procs)) =
      name @ ?b # (''CPU:'' @ cpu) @ ?b # (''MEM:'' @ mem) @ ?b # (''PROC:'' @ show_int procs)"
    by (simp add: data_line_def)
  then show ?thesis
    by (simp only: strtok_field(1) [OF ok(1,2)] strtok_field(1) [OF _ ok(3)] strtok_field(1) [OF _ ok(4)]
        strtok_field(2) [OF _ ok(5)] append_is_Nil_conv list.distinct not_False_eq_True simp_thms)
qed

definition stored_data ::
  "'f platform \<Rightarrow> int \<Rightarrow> 'f monitor_data \<Rightarrow> string \<times> string \<times> string \<times> int \<Rightarrow> 'f monitor_data" where
  "stored_data pf now d = (\<lambda>(name, cpu, mem, procs).
     d\<lparr>d_name := take (name_size pf - 1) name, d_cpu := f_atof pf cpu, d_mem := f_atof pf mem,
       d_procs := procs, d_time := now, d_valid := 1\<rparr>)"

text \<open>Any text in the form of the comment in the code is parsed to its fields.\<close>

interpretation data_line: codec data_line "\<lambda>s. parse_data pf now s d" "stored_data pf now d" data_ok
  for pf :: "'f platform" and now d
proof
  fix x
  assume ok: "data_ok x"
  obtain name cpu mem procs where x: "x = (name, cpu, mem, procs)" by (cases x) auto
  have "has_prefix ''DATA:'' (data_line x)"
    by (simp add: x data_line_def has_prefix_def strncmp_eq_def)
  moreover have "\<not> has_prefix ''CPU:'' (''MEM:'' @ mem)" "\<not> has_prefix ''CPU:'' (''PROC:'' @ show_int procs)"
    "\<not> has_prefix ''MEM:'' (''PROC:'' @ show_int procs)"
    by (simp_all add: has_prefix_def strncmp_eq_def)
  moreover have "atoi_c (show_int procs) = procs"
    using ok by (intro atoi_show_int) (simp add: x data_ok_def)
  moreover have "has_prefix ''CPU:'' (''CPU:'' @ cpu)" "has_prefix ''MEM:'' (''MEM:'' @ mem)"
    "has_prefix ''PROC:'' (''PROC:'' @ show_int procs)"
    by (rule has_prefix_append)+
  ultimately show "parse_data pf now (data_line x) d = stored_data pf now d x"
    using data_tokens [OF ok [unfolded x]]
    by (simp add: parse_data_def x data_token_def set_name_def stored_data_def strncpy_c_def)
qed

section \<open>Counters of the processor\<close>

lemma scan_sign_digit: "isdigit_c c \<Longrightarrow> scan_sign (c # cs) = (False, c # cs)"
  by (simp add: scan_sign_def isdigit_not_others)

lemma scan_lu_show:
  assumes "\<forall>c \<in> set ws. isspace_c c" and "rest = [] \<or> \<not> isdigit_c (hd rest)" and "n < 2 ^ 64"
  shows "scan_lu (ws @ show_nat n @ rest) = Some (of_nat n, rest)"
proof -
  obtain c cs where s: "show_nat n = c # cs" using show_nat_nonempty by (cases "show_nat n") auto
  then have c: "isdigit_c c" using show_nat_digits [of n] by simp
  have "dropWhile isspace_c (ws @ show_nat n @ rest) = show_nat n @ rest"
    using assms(1) c isdigit_not_space s by (intro dropWhile_append_stop) auto
  moreover have "takeWhile isdigit_c (show_nat n @ rest) = show_nat n"
    using show_nat_digits assms(2) by (intro takeWhile_append_stop) auto
  moreover have "scan_sign (show_nat n @ rest) = (False, show_nat n @ rest)"
    using c s by (simp add: scan_sign_digit)
  ultimately show ?thesis
    using assms(3) by (simp add: scan_lu_def show_nat_nonempty digits_val_show_nat ulong_of_def)
qed

definition counters_text :: "nat list \<Rightarrow> string" where
  "counters_text vs = concat (map (\<lambda>v. '' '' @ show_nat v) vs)"

lemma counters_text_simps [simp]:
  "counters_text [] = []"
  "counters_text (v # vs) = '' '' @ show_nat v @ counters_text vs"
  by (simp_all add: counters_text_def)

lemma scan_lus_counters:
  assumes "k \<le> length vs" and "\<forall>v \<in> set vs. v < 2 ^ 64" and "rest = [] \<or> \<not> isdigit_c (hd rest)"
  shows "scan_lus k (counters_text vs @ rest) = map of_nat (take k vs)"
  using assms(1,2)
proof (induction k arbitrary: vs)
  case (Suc k)
  then obtain v us where vs: "vs = v # us" by (cases vs) auto
  have "\<not> isdigit_c CHR '' ''" by code_simp
  then have "counters_text us @ rest = [] \<or> \<not> isdigit_c (hd (counters_text us @ rest))"
    using assms(3) by (cases us) auto
  then have "scan_lu ('' '' @ show_nat v @ counters_text us @ rest) = Some (of_nat v, counters_text us @ rest)"
    using Suc.prems(2) by (intro scan_lu_show) (auto simp: vs isspace_c_def)
  with Suc vs show ?case by simp
qed simp

definition stat_text :: "nat list \<Rightarrow> string \<Rightarrow> string" where
  "stat_text vs rest = ''cpu '' @ counters_text vs @ NL # rest"

lemma counters_text_clean: "c \<in> set (counters_text vs) \<Longrightarrow> c = CHR '' '' \<or> isdigit_c c"
  using show_nat_digits by (induction vs) auto

lemma stat_line:
  assumes "length (counters_text vs) < 250"
  shows "cstr (fst (fgets_c 255 (stat_text vs rest))) = ''cpu '' @ counters_text vs @ [NL]"
proof -
  let ?l = "''cpu '' @ counters_text vs"
  have "\<not> isdigit_c NL" "\<not> isdigit_c NUL" by code_simp+
  then have clean: "NL \<notin> set ?l" "NUL \<notin> set ?l" using counters_text_clean by auto
  have "fst (fgets_c 255 (?l @ NL # rest)) = ?l @ [NL]"
    using fgets_line [OF clean(1), of 255 rest] assms by simp
  moreover have "c_string (?l @ [NL])" using clean(2) by (simp add: c_string_def)
  ultimately show ?thesis by (simp add: stat_text_def)
qed

lemma stat_counters:
  assumes "8 \<le> length vs" and "\<forall>v \<in> set vs. v < 2 ^ 64" and "length (counters_text vs) < 250"
  shows "cpu_counters (cstr (fst (fgets_c 255 (stat_text vs rest)))) = map of_nat (take 8 vs)"
proof -
  have "scan_lus 8 ('' '' @ counters_text vs @ [NL]) = scan_lus 8 (counters_text vs @ [NL])"
  proof -
    have "isspace_c CHR '' ''" by code_simp
    then have "scan_lu ('' '' @ s) = scan_lu s" for s by (simp add: scan_lu_def)
    then show ?thesis by (simp add: numeral_eq_Suc)
  qed
  moreover have "\<not> isdigit_c NL" by code_simp
  ultimately show ?thesis
    using scan_lus_counters [OF assms(1,2), of "[NL]"]
    by (simp add: stat_line [OF assms(3)] cpu_counters_def literal_def)
qed

lemma of_nat_sum_list: "(of_nat (sum_list xs) :: 64 word) = sum_list (map of_nat xs)"
  by (induction xs) simp_all

definition idle_of :: "nat list \<Rightarrow> nat" where
  "idle_of vs = vs ! 3 + vs ! 4"

definition total_of :: "nat list \<Rightarrow> nat" where
  "total_of vs = sum_list (take 8 vs)"

lemma nth_le_sum: "i < length xs \<Longrightarrow> (xs ! i :: nat) \<le> sum_list xs"
  by (simp add: member_le_sum_list)

lemma get_cpu_usage_stat:
  assumes "fs ''/proc/stat'' = Some (stat_text vs rest)" and "8 \<le> length vs"
    and "\<forall>v \<in> set vs. v < 2 ^ 64" and "length (counters_text vs) < 250"
  shows "get_cpu_usage_from_proc pf fs st =
     (let st' = st\<lparr>prev_idle := of_nat (idle_of vs), prev_total := of_nat (total_of vs)\<rparr>;
          total_diff = of_nat (total_of vs) - prev_total st
      in (if prev_total st = 0 \<or> total_diff = 0 then f_zero pf
          else f_percent pf (total_diff - (of_nat (idle_of vs) - prev_idle st)) total_diff, st'))"
proof -
  have "stat_text vs rest \<noteq> []" by (simp add: stat_text_def)
  then show ?thesis
    using assms(1,2)
    by (simp add: get_cpu_usage_from_proc_def stat_counters [OF assms(2-4)] idle_of_def total_of_def
        of_nat_sum_list Let_def)
qed

lemma idle_grows_less:
  assumes "list_all2 (\<le>) (old :: nat list) new" and "8 \<le> length old"
  shows "idle_of old \<le> idle_of new" and "total_of old \<le> total_of new"
    and "idle_of new - idle_of old \<le> total_of new - total_of old"
proof -
  obtain a b c d e f g h r where o: "old = a # b # c # d # e # f # g # h # r"
    using assms(2) by (auto simp: numeral_eq_Suc Suc_le_length_iff)
  obtain a' b' c' d' e' f' g' h' r' where n: "new = a' # b' # c' # d' # e' # f' # g' # h' # r'"
    using list_all2_lengthD [OF assms(1)] assms(2) by (auto simp: numeral_eq_Suc Suc_le_length_iff)
  show "idle_of old \<le> idle_of new" "total_of old \<le> total_of new"
    "idle_of new - idle_of old \<le> total_of new - total_of old"
    using assms(1) unfolding o n idle_of_def total_of_def by (auto simp: le_diff_conv)
qed

lemma list_all2_below:
  "list_all2 (\<le>) xs ys \<Longrightarrow> \<forall>y \<in> set ys. y < (b :: nat) \<Longrightarrow> \<forall>x \<in> set xs. x < b"
  by (induction rule: list_all2_induct) auto

section \<open>Lines of the system files\<close>

definition file_lines :: "string list \<Rightarrow> string" where
  "file_lines ls = concat (map (\<lambda>l. l @ [NL]) ls)"

lemma fgets_all_lines:
  assumes "\<forall>l \<in> set ls. NL \<notin> set l \<and> length l < k"
  shows "fgets_all k (file_lines ls @ rest) = map (\<lambda>l. l @ [NL]) ls @ fgets_all k rest"
  using assms
proof (induction ls)
  case (Cons l ls)
  have "fgets_c k (l @ NL # file_lines ls @ rest) = (l @ [NL], file_lines ls @ rest)"
    using Cons.prems by (intro fgets_line) auto
  with Cons show ?case
    by (simp add: file_lines_def fgets_all.simps [of k "l @ NL # _"])
qed (simp add: file_lines_def)

lemma find_after: "\<forall>x \<in> set xs. \<not> P x \<Longrightarrow> P y \<Longrightarrow> find P (xs @ y # ys) = Some y"
  by (induction xs) auto

lemma scan_f_decimal:
  assumes "a \<noteq> []" and "\<forall>c \<in> set (a @ b). isdigit_c c" and "\<forall>c \<in> set ws. isspace_c c"
    and "\<not> isdigit_c c" and "c \<noteq> CHR ''e''" and "c \<noteq> CHR ''E''"
  shows "scan_f (ws @ a @ CHR ''.'' # b @ c # rest) = Some (c # rest)"
proof -
  obtain d ds where a: "a = d # ds" using assms(1) by (cases a) auto
  then have d: "isdigit_c d" using assms(2) by simp
  have "dropWhile isspace_c (ws @ a @ CHR ''.'' # b @ c # rest) = a @ CHR ''.'' # b @ c # rest"
    using assms(3) d isdigit_not_space a by (intro dropWhile_append_stop) auto
  moreover have "scan_sign (a @ CHR ''.'' # b @ c # rest) = (False, a @ CHR ''.'' # b @ c # rest)"
    using d a by (simp add: scan_sign_digit)
  moreover have "\<not> isdigit_c CHR ''.''" by code_simp
  then have "takeWhile isdigit_c (a @ CHR ''.'' # b @ c # rest) = a"
    using assms(2) by (intro takeWhile_append_stop) auto
  moreover have "takeWhile isdigit_c (b @ c # rest) = b"
    using assms(2,4) by (intro takeWhile_append_stop) auto
  ultimately show ?thesis using assms(1,5,6) by (simp add: scan_f_def Let_def)
qed

section \<open>The context over time\<close>

datatype ipc_event =
    Ev_Init "(bool \<times> string) option" | Ev_Send "room_command option" "string option" "string option"
  | Ev_Sample proc_files | Ev_Send_Raw "ipc_message option" bool int | Ev_Cleanup

fun ipc_step :: "'f platform \<Rightarrow> ipc \<Rightarrow> ipc_event \<Rightarrow> ipc" where
  "ipc_step pf st (Ev_Init made) = fst (snd (ipc_init made st))"
| "ipc_step pf st (Ev_Send c oe we) =
     (case ipc_send_command pf c oe we st of Inl _ \<Rightarrow> st | Inr (_, st', _) \<Rightarrow> st')"
| "ipc_step pf st (Ev_Sample fs) = snd (get_cpu_usage_from_proc pf fs st)"
| "ipc_step pf st (Ev_Send_Raw m ok w) =
     (case ipc_send_raw_message pf m ok w st of Inl _ \<Rightarrow> st | Inr (_, st', _) \<Rightarrow> st')"
| "ipc_step pf st Ev_Cleanup = (case ipc_cleanup st of Inl _ \<Rightarrow> st | Inr (st', _) \<Rightarrow> st')"

definition ipc_inv :: "ipc \<Rightarrow> bool" where
  "ipc_inv st \<longleftrightarrow> fifo_mutex st = \<lparr>kind = Normal, depth = 0\<rparr>"

lemma fifo_lock_free:
  "ipc_inv st \<Longrightarrow> fifo_lock st = Inr (st\<lparr>fifo_mutex := \<lparr>kind = Normal, depth = 1\<rparr>\<rparr>)"
  by (simp add: ipc_inv_def fifo_lock_def mutex_lock_def)

lemma fifo_unlock_lock:
  "ipc_inv st \<Longrightarrow> fifo_unlock (st\<lparr>fifo_mutex := \<lparr>kind = Normal, depth = Suc 0\<rparr>\<rparr>) = st"
  by (cases st) (simp add: ipc_inv_def fifo_unlock_def mutex_unlock_def)

lemma ipc_send_command_eq:
  assumes "ipc_inv st" and "ipc_ready st"
  shows "ipc_send_command pf (Some c) None None st =
     bind_outcome (buffer_bytes (command_text pf c)) (\<lambda>bytes.
       Inr (0, st, [Open_Write FIFO_PATH, Write_Bytes bytes, Close_It],
            [(LOG_DEBUG, ''Sent command: '' @ snprintf_c [] IPC_BUFFER (command_text pf c))]))"
  using assms(2) by (simp add: ipc_send_command_def fifo_lock_free [OF assms(1)] fifo_unlock_lock [OF assms(1)])

lemma ipc_init_inv: "ipc_inv st \<Longrightarrow> ipc_inv (fst (snd (ipc_init made st)))"
  by (simp add: ipc_init_def ipc_inv_def Let_def split: option.splits)

lemma get_cpu_inv: "ipc_inv st \<Longrightarrow> ipc_inv (snd (get_cpu_usage_from_proc pf fs st))"
  by (simp add: get_cpu_usage_from_proc_def ipc_inv_def Let_def split: option.splits)

lemma ipc_step_inv:
  assumes "ipc_inv st"
  shows "ipc_inv (ipc_step pf st e)"
proof (cases e)
  case (Ev_Send c oe we)
  show ?thesis
    using assms by (auto simp: Ev_Send ipc_send_command_def fifo_lock_free [OF assms]
        fifo_unlock_lock [OF assms] bind_outcome_def Let_def split: option.splits sum.splits)
next
  case (Ev_Send_Raw m ok w)
  show ?thesis
    using assms by (auto simp: Ev_Send_Raw ipc_send_raw_message_def fifo_lock_free [OF assms]
        fifo_unlock_lock [OF assms] split: option.splits)
next
  case Ev_Cleanup
  show ?thesis
    using assms by (simp add: Ev_Cleanup ipc_cleanup_def fifo_lock_free [OF assms] fifo_unlock_def
        mutex_unlock_def ipc_inv_def)
qed (use assms in \<open>simp_all add: ipc_init_inv get_cpu_inv\<close>)

interpretation ip: machine "ipc_step pf" ipc_ctx ipc_inv for pf :: "'f platform"
  by unfold_locales (simp_all add: ipc_step_inv, simp add: ipc_inv_def ipc_ctx_def)

section \<open>Reading the system files\<close>

lemma memory_free_read:
  assumes "\<forall>l \<in> set ls. NL \<notin> set l \<and> length l < 255 \<and> \<not> has_prefix ''MemFree:'' (cstr (l @ [NL]))"
    and "\<forall>c \<in> set ws. isspace_c c \<and> c \<noteq> NL" and "length ws < 100" and "n < 2 ^ 64"
    and "fs ''/proc/meminfo'' = Some (file_lines ls @ ''MemFree:'' @ ws @ show_nat n @ '' kB'' @ NL # rest)"
  shows "get_memory_free_from_proc fs = of_nat n"
proof -
  let ?line = "''MemFree:'' @ ws @ show_nat n @ '' kB''"
  have digits: "\<not> isdigit_c NL" "\<not> isdigit_c NUL" "\<not> isspace_c NUL" "\<not> isdigit_c CHR '' ''" "\<not> isdigit_c CHR ''/''"
    by code_simp+
  have len: "length (show_nat n) \<le> Suc 19" by (rule show_nat_length) (use assms(4) in simp)
  have clean: "NL \<notin> set ?line" "NUL \<notin> set ?line"
    using assms(2) digits show_nat_digits [of n] by auto
  have "fgets_c 255 (?line @ NL # rest) = (?line @ [NL], rest)"
    using clean(1) assms(3) len by (intro fgets_line) auto
  then have "fgets_all 255 (?line @ NL # rest) = (?line @ [NL]) # fgets_all 255 rest"
    using fgets_all.simps [of 255 "?line @ NL # rest"] by (simp del: append_assoc)
  then have "map cstr (fgets_all 255 (file_lines ls @ ?line @ NL # rest)) =
      map cstr (map (\<lambda>l. l @ [NL]) ls) @ cstr (?line @ [NL]) # map cstr (fgets_all 255 rest)"
    using assms(1) by (simp add: fgets_all_lines)
  moreover have "cstr (?line @ [NL]) = ''MemFree:'' @ ws @ show_nat n @ '' kB'' @ [NL]"
  proof -
    have "c_string (?line @ [NL])" using clean(2) by (simp add: c_string_def)
    then show ?thesis by (simp only: cstr_id append_assoc)
  qed
  moreover have "find (has_prefix ''MemFree:'') (map cstr (map (\<lambda>l. l @ [NL]) ls) @
      (''MemFree:'' @ ws @ show_nat n @ '' kB'' @ [NL]) # map cstr (fgets_all 255 rest)) =
      Some (''MemFree:'' @ ws @ show_nat n @ '' kB'' @ [NL])"
  proof (rule find_after)
    show "\<forall>x \<in> set (map cstr (map (\<lambda>l. l @ [NL]) ls)). \<not> has_prefix ''MemFree:'' x"
      using assms(1) by auto
  qed (rule has_prefix_append)
  ultimately have "find (has_prefix ''MemFree:'') (map cstr (fgets_all 255
      (file_lines ls @ ''MemFree:'' @ ws @ show_nat n @ '' kB'' @ NL # rest))) =
      Some (''MemFree:'' @ ws @ show_nat n @ '' kB'' @ [NL])"
    by (simp only: append_assoc)
  moreover have "scan_lu (ws @ show_nat n @ '' kB'' @ [NL]) = Some (of_nat n, '' kB'' @ [NL])"
    using assms(2,4) digits by (intro scan_lu_show) auto
  ultimately show "get_memory_free_from_proc fs = of_nat n"
    using assms(5) by (simp add: get_memory_free_from_proc_def)
qed

lemma process_count_read:
  assumes fs_load: "fs ''/proc/loadavg'' = Some (load @ [NL])"
    and load_eq: "load = show_nat a @ ''.'' @ x @ '' '' @ show_nat b @ ''.'' @ y @ '' '' @
       show_nat c @ ''.'' @ z @ '' '' @ show_nat running @ ''/'' @ show_nat procs @ '' '' @ w"
    and dig: "\<forall>d \<in> set (x @ y @ z). isdigit_c d" and runs: "int32 (int running)" and procs32: "int32 (int procs)"
    and clean_w: "NL \<notin> set w" "NUL \<notin> set w" and short: "length load < 255"
  shows "get_process_count_from_proc fs = int procs"
proof -
  have digits: "\<not> isdigit_c NL" "\<not> isdigit_c NUL" "\<not> isspace_c NUL" "\<not> isdigit_c CHR '' ''" "\<not> isdigit_c CHR ''/''"
    by code_simp+
  have d: "\<forall>c \<in> set (show_nat i @ x) \<union> set (show_nat i @ y) \<union> set (show_nat i @ z). isdigit_c c" for i
    using dig show_nat_digits [of i] by auto
  have sp: "isspace_c CHR '' ''" by code_simp
  have "NL \<notin> set load" "NUL \<notin> set load"
    using clean_w d digits by (auto simp: load_eq)
  then have line: "cstr (fst (fgets_c 255 (load @ [NL]))) = load @ [NL]"
    using fgets_line [of load 255 "[]"] short by (simp add: c_string_def)
  define r3 where "r3 = CHR '' '' # show_nat running @ ''/'' @ show_nat procs @ '' '' @ w @ [NL]"
  define r2 where "r2 = CHR '' '' # show_nat c @ CHR ''.'' # z @ r3"
  define r1 where "r1 = CHR '' '' # show_nat b @ CHR ''.'' # y @ r2"
  have l: "load @ [NL] = [] @ show_nat a @ CHR ''.'' # x @ r1"
    by (simp add: load_eq r1_def r2_def r3_def)
  have 1: "scan_f (load @ [NL]) = Some r1"
    using d [of a] digits unfolding l r1_def by (intro scan_f_decimal) (auto simp: show_nat_nonempty)
  have 2: "scan_f r1 = Some r2"
    using d [of b] digits sp scan_f_decimal [of "show_nat b" y "'' ''" "CHR '' ''"]
    by (simp add: r1_def r2_def show_nat_nonempty)
  have 3: "scan_f r2 = Some r3"
    using d [of c] digits sp scan_f_decimal [of "show_nat c" z "'' ''" "CHR '' ''"]
    by (simp add: r2_def r3_def show_nat_nonempty)
  have nat_int: "show_nat i = show_int (int i)" for i by (simp add: show_int_def)
  have 4: "scan_d r3 = Some (int running, ''/'' @ show_nat procs @ '' '' @ w @ [NL])"
    using strtol_show_int [OF runs, of "''/'' @ show_nat procs @ '' '' @ w @ [NL]" "'' ''"] digits sp
    by (simp add: r3_def scan_d_def nat_int int_of_long_id runs)
  have 5: "scan_d (show_nat procs @ '' '' @ w @ [NL]) = Some (int procs, '' '' @ w @ [NL])"
    using strtol_show_int [OF procs32, of "'' '' @ w @ [NL]" "[]"] digits
    by (simp add: scan_d_def nat_int int_of_long_id procs32)
  show "get_process_count_from_proc fs = int procs"
    using 1 2 3 4 5 fs_load by (simp add: get_process_count_from_proc_def line literal_def)
qed

text \<open>A platform for the witnesses: numbers stay the text they are read from.\<close>

definition text_platform :: "string platform" where
  "text_platform = \<lparr>name_size = 64, message_size = 1024, resp_message_size = 256, resp_data_size = 1024,
     cmd_num = (\<lambda>_. 1), f_zero = ''0'',
     f_atof = (\<lambda>s. s), f_percent = (\<lambda>a b. show_nat (unat a) @ ''/'' @ show_nat (unat b)),
     f_show = (\<lambda>s. s)\<rparr>"

section \<open>Properties\<close>

text \<open>C28. In every state the handler can be in, sending a command never hangs: before the pipe is
  set up it fails without a call; otherwise a text shorter than the 1024-byte buffer is written
  whole and the pipe is closed again, a text of exactly 1024 characters is written with a NUL for its
  newline, and a longer one makes the handler read beyond its buffer.\<close>

theorem sent_command_exact:
  "let st = run (ipc_step pf) ipc_ctx es; text = command_text pf c;
       sends = (\<lambda>bytes. Inr (0, st, [Open_Write FIFO_PATH, Write_Bytes bytes, Close_It],
                  [(LOG_DEBUG, ''Sent command: '' @ take 1023 text)]))
   in ipc_send_command pf (Some c) None None st =
      (if \<not> ipc_ready st then Inr (-1, st, [], [(LOG_ERROR, ''IPC not initialized'')])
       else if length text < 1024 then sends text
       else if length text = 1024 then sends (take 1023 text @ [NUL])
       else Inl Out_Of_Bounds)"
proof -
  have inv: "ipc_inv (run (ipc_step pf) ipc_ctx es)" by (rule ip.inv_reached)
  show ?thesis
  proof (cases "ipc_ready (run (ipc_step pf) ipc_ctx es)")
    case True
    then show ?thesis
      by (simp add: ipc_send_command_eq [OF inv] buffer_bytes_def IPC_BUFFER_def snprintf_c_def Let_def)
  next
    case False
    then show ?thesis by (simp add: ipc_send_command_def Let_def)
  qed
qed

text \<open>A line of data in the documented form is stored field by field: the name cut to its array,
  the two loads and the number of processes, with the time and the valid mark, and the pipe is
  closed.\<close>

theorem data_line_received:
  assumes "ipc_ready st" and "data_ok x" and "length (data_line x) < 1024"
  shows "\<exists>ls. ipc_receive_data pf now None (Some (data_line x)) (Some d) st =
     (0, Some (stored_data pf now d x), [Open_Read FIFO_PATH, Read_Bytes 1023, Close_It], ls)"
proof -
  obtain name cpu mem procs where x: "x = (name, cpu, mem, procs)" by (cases x) auto
  have "NUL \<notin> set (data_line x)"
    using assms(2) show_int_field [of procs] by (auto simp: x data_line_def data_ok_def field_ok_def)
  then have "cstr (data_line x) = data_line x" by (simp add: c_string_def)
  moreover have "data_line x \<noteq> []" by (simp add: x data_line_def)
  ultimately show ?thesis
    using assms(1,3) data_line.dec_enc [OF assms(2), of pf now d]
    by (simp add: ipc_receive_data_def IPC_BUFFER_def Let_def)
qed

theorem data_line_received_witness:
  "\<exists>ls. ipc_receive_data text_platform 5 None (Some ''DATA:a|CPU:1.5|MEM:2.5|PROC:3'')
       (Some (zero_data text_platform)) (ipc_ctx\<lparr>ipc_ready := True\<rparr>) =
     (0, Some \<lparr>d_name = ''a'', d_cpu = ''1.5'', d_mem = ''2.5'', d_mem_free = 0, d_procs = 3, d_time = 5,
        d_valid = 1\<rparr>, [Open_Read FIFO_PATH, Read_Bytes 1023, Close_It], ls)"
proof -
  have line: "data_line (''a'', ''1.5'', ''2.5'', 3) = ''DATA:a|CPU:1.5|MEM:2.5|PROC:3''" by code_simp
  have ok: "data_ok (''a'', ''1.5'', ''2.5'', 3)" by (simp add: data_ok_def field_ok_def int32_def)
  show ?thesis
    using data_line_received [OF _ ok, of "ipc_ctx\<lparr>ipc_ready := True\<rparr>" text_platform 5 "zero_data text_platform"]
    by (simp add: line stored_data_def zero_data_def) (simp add: text_platform_def)
qed

text \<open>Input that is not a line of data is reported as a success: the function returns 0 and leaves
  the structure of its caller as it was.\<close>

theorem garbage_is_success:
  assumes "ipc_ready st" and "bytes \<noteq> []" and "take 5 (cstr (take 1023 bytes)) \<noteq> ''DATA:''"
  shows "ipc_receive_data pf now None (Some bytes) (Some d) st =
     (0, Some d, [Open_Read FIFO_PATH, Read_Bytes 1023, Close_It], [])"
proof -
  have "\<not> has_prefix ''DATA:'' (cstr (take 1023 bytes))"
    using assms(3) by (simp add: has_prefix_def strncmp_eq_def numeral_eq_Suc)
  then show ?thesis
    using assms(1,2) by (simp add: ipc_receive_data_def IPC_BUFFER_def parse_data_def Let_def)
qed

theorem garbage_is_success_witness:
  "ipc_receive_data text_platform 5 None (Some ''noise'') (Some (zero_data text_platform))
       (ipc_ctx\<lparr>ipc_ready := True\<rparr>) =
     (0, Some (zero_data text_platform), [Open_Read FIFO_PATH, Read_Bytes 1023, Close_It], [])"
  by (rule garbage_is_success) (simp_all add: cstr_def)

text \<open>C26. Two samples of the processor counters give the share of busy time between them: the counters
  of the first line of the stat file are read exactly, the differences are those of the
  counters as natural numbers, idle time never exceeds the total, and the first sample and an
  interval without any tick give zero.\<close>

theorem cpu_usage_between_samples:
  assumes "fs ''/proc/stat'' = Some (stat_text old rest)" and "fs' ''/proc/stat'' = Some (stat_text new rest')"
    and "list_all2 (\<le>) old new" and "8 \<le> length old" and "total_of new < 2 ^ 64" and "0 < total_of old"
    and "\<forall>v \<in> set new. v < 2 ^ 64"
    and "length (counters_text old) < 250" and "length (counters_text new) < 250"
  shows "let st1 = snd (get_cpu_usage_from_proc pf fs st);
             total = total_of new - total_of old; idle = idle_of new - idle_of old
         in fst (get_cpu_usage_from_proc pf fs' st1) =
              (if total = 0 then f_zero pf else f_percent pf (of_nat (total - idle)) (of_nat total)) \<and>
            idle \<le> total \<and> unat (of_nat (total - idle) :: 64 word) = total - idle \<and>
            unat (of_nat total :: 64 word) = total"
proof -
  have len: "8 \<le> length new" using assms(3,4) list_all2_lengthD by fastforce
  have old: "\<forall>v \<in> set old. v < 2 ^ 64"
    using assms(3,7) by (rule list_all2_below)
  note grow = idle_grows_less [OF assms(3,4)]
  have tot: "total_of old < 2 ^ 64" using grow(2) assms(5) by simp
  have diff: "(of_nat (total_of new) :: 64 word) - of_nat (total_of old) = of_nat (total_of new - total_of old)"
    "(of_nat (idle_of new) :: 64 word) - of_nat (idle_of old) = of_nat (idle_of new - idle_of old)"
    using grow by (simp_all add: of_nat_diff)
  have busy: "(of_nat (total_of new - total_of old) :: 64 word) - of_nat (idle_of new - idle_of old) =
      of_nat (total_of new - total_of old - (idle_of new - idle_of old))"
    by (rule of_nat_diff [symmetric, OF grow(3)])
  have unat: "unat (of_nat n :: 64 word) = n" if "n < 2 ^ 64" for n
    using that by (simp add: unat_of_nat take_bit_nat_eq_self)
  have zero: "(of_nat n :: 64 word) = 0 \<longleftrightarrow> n = 0" if "n < 2 ^ 64" for n
  proof
    assume "(of_nat n :: 64 word) = 0"
    then have "unat (of_nat n :: 64 word) = 0" by (simp only: unat_0)
    then show "n = 0" by (simp only: unat [OF that])
  qed simp
  let ?st = "st\<lparr>prev_idle := of_nat (idle_of old), prev_total := of_nat (total_of old)\<rparr>"
  let ?total = "total_of new - total_of old" and ?idle = "idle_of new - idle_of old"
  have first: "snd (get_cpu_usage_from_proc pf fs st) = ?st"
    by (simp only: get_cpu_usage_stat [where fs = fs, OF assms(1,4) old assms(8)] Let_def snd_conv)
  have prev: "prev_total ?st = of_nat (total_of old)" "prev_idle ?st = of_nat (idle_of old)"
    by simp_all
  have "(of_nat (total_of old) :: 64 word) \<noteq> 0" using zero [OF tot] assms(6) by simp
  moreover have "(of_nat ?total :: 64 word) = 0 \<longleftrightarrow> ?total = 0"
    by (rule zero) (use assms(5) in simp)
  ultimately have "fst (get_cpu_usage_from_proc pf fs' ?st) =
      (if ?total = 0 then f_zero pf else f_percent pf (of_nat (?total - ?idle)) (of_nat ?total))"
    using get_cpu_usage_stat [where fs = fs' and pf = pf and st = ?st, OF assms(2) len assms(7,9)]
    by (simp only: Let_def fst_conv prev diff busy simp_thms)
  then show ?thesis
    using grow(3) unat [of ?total] unat [of "?total - ?idle"] assms(5) by (simp only: first Let_def)
qed

definition sample1 :: "nat list" where "sample1 = [2, 0, 0, 8, 0, 0, 0, 0]"
definition sample2 :: "nat list" where "sample2 = [3, 0, 2, 10, 2, 0, 0, 0]"

theorem cpu_usage_between_samples_witness:
  "fst (get_cpu_usage_from_proc text_platform [''/proc/stat'' \<mapsto> stat_text sample2 []]
          (snd (get_cpu_usage_from_proc text_platform [''/proc/stat'' \<mapsto> stat_text sample1 []] ipc_ctx))) =
     ''3/7''"
proof -
  have len: "length (counters_text sample1) < 250" "length (counters_text sample2) < 250"
    by code_simp+
  have num: "idle_of sample1 = 8" "total_of sample1 = 10" "idle_of sample2 = 12" "total_of sample2 = 17"
    by (simp_all add: idle_of_def total_of_def sample1_def sample2_def)
  have le: "list_all2 (\<le>) sample1 sample2" "8 \<le> length sample1" "\<forall>v \<in> set sample2. v < 2 ^ 64"
    by (simp_all add: sample1_def sample2_def)
  have "show_nat 3 = ''3''" "show_nat 7 = ''7''" by code_simp+
  then show ?thesis
    using cpu_usage_between_samples [of "[''/proc/stat'' \<mapsto> stat_text sample1 []]" sample1 "[]"
        "[''/proc/stat'' \<mapsto> stat_text sample2 []]" sample2 "[]" text_platform ipc_ctx] len le
    by (simp add: num Let_def) (simp add: text_platform_def)
qed

text \<open>Without the kernel module the numbers come from the system files: free memory is the number
  of the first line of the memory file that starts with MemFree, whatever lines of at most 254
  characters come before it, and the number of processes is the one behind the slash of the
  load file.\<close>

theorem fallback_reads_proc_files:
  assumes "\<forall>l \<in> set ls. NL \<notin> set l \<and> length l < 255 \<and> \<not> has_prefix ''MemFree:'' (cstr (l @ [NL]))"
    and "\<forall>c \<in> set ws. isspace_c c \<and> c \<noteq> NL" and "length ws < 100" and "n < 2 ^ 64"
    and "fs ''/proc/meminfo'' = Some (file_lines ls @ ''MemFree:'' @ ws @ show_nat n @ '' kB'' @ NL # rest)"
    and "fs ''/proc/loadavg'' = Some (load @ [NL])"
    and "load = show_nat a @ ''.'' @ x @ '' '' @ show_nat b @ ''.'' @ y @ '' '' @
       show_nat c @ ''.'' @ z @ '' '' @ show_nat running @ ''/'' @ show_nat procs @ '' '' @ w"
    and "\<forall>d \<in> set (x @ y @ z). isdigit_c d" and "int32 (int running)" and "int32 (int procs)"
    and "NL \<notin> set w" and "NUL \<notin> set w" and "length load < 255"
  shows "get_memory_free_from_proc fs = of_nat n \<and> get_process_count_from_proc fs = int procs"
  by (intro conjI memory_free_read [where fs = fs, OF assms(1-4)] process_count_read [where fs = fs, OF _ assms(7-13)])
    (rule assms)+

definition example_load :: string where "example_load = ''0.5 0.5 0.5 2/345 6''"

definition example_proc :: proc_files where
  "example_proc = [''/proc/meminfo'' \<mapsto> file_lines [''MemTotal: 9 kB''] @ ''MemFree:'' @ '' '' @
      show_nat 7 @ '' kB'' @ NL # [], ''/proc/loadavg'' \<mapsto> example_load @ [NL]]"

theorem fallback_reads_proc_files_witness:
  "get_memory_free_from_proc example_proc = of_nat 7 \<and> get_process_count_from_proc example_proc = int 345"
proof (rule fallback_reads_proc_files [where ls = "[''MemTotal: 9 kB'']" and ws = "'' ''" and rest = "[]"
      and load = example_load and a = 0 and b = 0 and c = 0 and x = "''5''" and y = "''5''" and z = "''5''"
      and running = 2 and w = "''6''"])
  have prefix: "\<not> has_prefix ''MemFree:'' (cstr (''MemTotal: 9 kB'' @ [NL]))" by code_simp
  then show "\<forall>l \<in> set [''MemTotal: 9 kB'']. NL \<notin> set l \<and> length l < 255 \<and>
      \<not> has_prefix ''MemFree:'' (cstr (l @ [NL]))"
    by simp
  show "example_proc ''/proc/meminfo'' = Some (file_lines [''MemTotal: 9 kB''] @ ''MemFree:'' @ '' '' @
      show_nat 7 @ '' kB'' @ NL # [])" "example_proc ''/proc/loadavg'' = Some (example_load @ [NL])"
    by (simp_all add: example_proc_def)
  show "example_load = show_nat 0 @ ''.'' @ ''5'' @ '' '' @ show_nat 0 @ ''.'' @ ''5'' @ '' '' @
      show_nat 0 @ ''.'' @ ''5'' @ '' '' @ show_nat 2 @ ''/'' @ show_nat 345 @ '' '' @ ''6''"
    by code_simp
  show "\<forall>d \<in> set (''5'' @ ''5'' @ ''5''). isdigit_c d" by code_simp
  show "length example_load < 255" by (simp add: example_load_def)
qed (simp_all add: isspace_c_def int32_def)

text \<open>C27. A raw message arrives as it was sent: in every state the handler can be in with its pipe set up,
  sending writes the bytes of the structure, and receiving all of them gives the same message. Any
  shorter transfer is refused, but the caller's message is overwritten as far as it went: from eight
  bytes on it has the type and length of the new message.\<close>

theorem raw_message_arrives:
  assumes "message_ok (name_size pf) (message_size pf) m" and "message_ok (name_size pf) (message_size pf) before"
    and "st = run (ipc_step pf) ipc_ctx es" and "ipc_ready st"
  shows "\<exists>bytes. length bytes = message_bytes_size pf \<and>
     ipc_send_raw_message pf (Some m) True (int (length bytes)) st =
       Inr (0, st, [Open_Write FIFO_PATH, Write_Bytes bytes, Close_It]) \<and>
     (let calls = [Open_Read FIFO_PATH, Read_Bytes (length bytes), Close_It]
      in ipc_receive_raw_message pf (Some before) True (Some bytes) st = (0, Some m, calls) \<and>
         (\<forall>k < length bytes. \<exists>mixed.
            ipc_receive_raw_message pf (Some before) True (Some (take k bytes)) st = (-1, Some mixed, calls) \<and>
            (if k = 0 then mixed = before
             else 8 \<le> k \<longrightarrow> m_type mixed = m_type m \<and> m_length mixed = m_length m)))"
proof -
  let ?bytes = "message_bytes m" and ?of = "message_of (name_size pf) (message_size pf)"
  have inv: "ipc_inv st" unfolding assms(3) by (rule ip.inv_reached)
  have len: "length ?bytes = message_bytes_size pf" "length (message_bytes before) = message_bytes_size pf"
    using length_message_bytes [OF assms(1)] length_message_bytes [OF assms(2)] by (simp_all add: message_bytes_size_def)
  have whole: "?of ?bytes = m" "?of (message_bytes before) = before"
    by (rule raw.dec_enc [OF assms(1)] raw.dec_enc [OF assms(2)])+
  have eight: "8 \<le> length ?bytes" by (simp add: len(1) message_bytes_size_def sizeof_message_def)
  have send: "ipc_send_raw_message pf (Some m) True (int (length ?bytes)) st =
      Inr (0, st, [Open_Write FIFO_PATH, Write_Bytes ?bytes, Close_It])"
    using assms(4) len by (simp add: ipc_send_raw_message_def fifo_lock_free [OF inv] fifo_unlock_lock [OF inv])
  have short: "ipc_receive_raw_message pf (Some before) True (Some (take k ?bytes)) st =
      (-1, Some (?of (take k ?bytes @ drop k (message_bytes before))), [Open_Read FIFO_PATH, Read_Bytes (length ?bytes), Close_It])"
    if "k < length ?bytes" for k
    using that assms(4) len by (simp add: ipc_receive_raw_message_def Let_def min_def)
  have "if k = 0 then ?of (take k ?bytes @ drop k (message_bytes before)) = before
      else 8 \<le> k \<longrightarrow> m_type (?of (take k ?bytes @ drop k (message_bytes before))) = m_type m \<and>
        m_length (?of (take k ?bytes @ drop k (message_bytes before))) = m_length m" for k
    using message_head [OF _ eight] whole(2) by auto
  then show ?thesis
    using send short assms(4) len whole
    by (intro exI [of _ ?bytes]) (auto simp: ipc_receive_raw_message_def Let_def)
qed

definition small_platform :: "string platform" where
  "small_platform = text_platform\<lparr>name_size := 3, message_size := 4\<rparr>"

definition example_message :: "ipc_message_type \<Rightarrow> ipc_message" where
  "example_message ty = \<lparr>m_type = type_code ty, m_length = 2, m_room = ''ab'' @ [NUL], m_data = ''5'' @ replicate 3 NUL,
     m_gap = [NUL], m_timestamp = 1700000000\<rparr>"

theorem raw_message_arrives_witness:
  "\<exists>bytes calls. length bytes = 24 \<and>
     ipc_receive_raw_message small_platform (Some (example_message IPC_MSG_STATUS)) True (Some bytes)
       (ipc_step small_platform ipc_ctx (Ev_Init None)) = (0, Some (example_message IPC_MSG_DATA), calls)"
proof -
  let ?st = "run (ipc_step small_platform) ipc_ctx [Ev_Init None]"
  have "message_ok (name_size small_platform) (message_size small_platform) (example_message ty)" for ty
    by (simp add: message_ok_def small_platform_def example_message_def gap_size_def)
  moreover have "ipc_ready ?st" by (simp add: ipc_init_def)
  moreover have "message_bytes_size small_platform = 24"
    by (simp add: message_bytes_size_def sizeof_message_def gap_size_def small_platform_def)
  ultimately show ?thesis
    using raw_message_arrives [OF _ _ refl, of small_platform "example_message IPC_MSG_DATA"
        "example_message IPC_MSG_STATUS" "[Ev_Init None]"]
    by (auto simp: Let_def)
qed

end
