(* ===== verification/MonitorConfig.thy ===== *)
theory MonitorConfig
  imports IpcHandler
begin

text \<open>
  The configuration of the integration daemon: \<open>load_configuration\<close> of
  \<^verbatim>\<open>src/04-integration/main_daemon.c\<close>. The sizes of the path arrays and two default paths
  are in the missing header; they are the record \<open>conf_env\<close>.
\<close>

record config =
  cf_log_path :: string
  cf_log_level :: log_level
  cf_structured :: int
  cf_port :: int
  cf_max_rooms :: int
  cf_max_clients :: int
  cf_interval :: int
  cf_fifo_path :: string
  cf_procfs_path :: string
  cf_pid_file :: string

record conf_env =
  path_size :: nat
  default_fifo :: string
  default_procfs :: string

definition zero_config :: config where
  "zero_config = \<lparr>cf_log_path = [], cf_log_level = LOG_TRACE, cf_structured = 0, cf_port = 0,
     cf_max_rooms = 0, cf_max_clients = 0, cf_interval = 0, cf_fifo_path = [], cf_procfs_path = [],
     cf_pid_file = []\<rparr>"

text \<open>\<open>%<width>[...]\<close>: at least one character of the set.\<close>

definition scan_set :: "nat \<Rightarrow> (char \<Rightarrow> bool) \<Rightarrow> string \<Rightarrow> (string \<times> string) option" where
  "scan_set width P s =
     (let w = take width (takeWhile P s) in if w = [] then None else Some (w, drop (length w) s))"

text \<open>The format \<open> %127[^=] = %255[^"]\<close>, when both conversions succeed.\<close>

definition config_entry :: "string \<Rightarrow> (string \<times> string) option" where
  "config_entry line =
     Option.bind (scan_set 127 (\<lambda>c. c \<noteq> CHR ''='') (dropWhile isspace_c line)) (\<lambda>(key, r).
     Option.bind (literal ''='' (dropWhile isspace_c r)) (\<lambda>r.
     map_option (\<lambda>(val, _). (key, val)) (scan_set 255 (\<lambda>c. c \<noteq> dquote) (dropWhile isspace_c r))))"

definition skip_blanks :: "string \<Rightarrow> string" where
  "skip_blanks s = dropWhile (\<lambda>c. c = CHR '' '' \<or> c = CHR 0x09) s"

definition apply_entry :: "conf_env \<Rightarrow> config \<Rightarrow> string \<times> string \<Rightarrow> config" where
  "apply_entry ce cfg kv =
     (let k = skip_blanks (fst kv); v = skip_blanks (snd kv); path = strncpy_c (path_size ce) v
      in if strcasecmp_eq k ''log_path'' then cfg\<lparr>cf_log_path := path\<rparr>
         else if strcasecmp_eq k ''log_level'' then cfg\<lparr>cf_log_level := log_level_from_string (Some v)\<rparr>
         else if strcasecmp_eq k ''structured_logging'' then
           cfg\<lparr>cf_structured := (if strcasecmp_eq v ''true'' then 1 else 0)\<rparr>
         else if strcasecmp_eq k ''daemon_port'' then cfg\<lparr>cf_port := atoi_c v\<rparr>
         else if strcasecmp_eq k ''max_rooms'' then cfg\<lparr>cf_max_rooms := atoi_c v\<rparr>
         else if strcasecmp_eq k ''max_clients'' then cfg\<lparr>cf_max_clients := atoi_c v\<rparr>
         else if strcasecmp_eq k ''collection_interval'' then cfg\<lparr>cf_interval := atoi_c v\<rparr>
         else if strcasecmp_eq k ''fifo_path'' then cfg\<lparr>cf_fifo_path := path\<rparr>
         else if strcasecmp_eq k ''procfs_path'' then cfg\<lparr>cf_procfs_path := path\<rparr>
         else if strcasecmp_eq k ''pid_file'' then cfg\<lparr>cf_pid_file := path\<rparr>
         else cfg)"

definition config_line :: "conf_env \<Rightarrow> config \<Rightarrow> string \<Rightarrow> config" where
  "config_line ce cfg line =
     (case config_entry line of None \<Rightarrow> cfg | Some kv \<Rightarrow> apply_entry ce cfg kv)"

text \<open>The defaults of \<^verbatim>\<open>main_daemon.h\<close>.\<close>

definition DEFAULT_PID_FILE :: string where "DEFAULT_PID_FILE = ''/tmp/monitor_daemon.pid''"
definition DEFAULT_LOG_FILE :: string where "DEFAULT_LOG_FILE = ''logs/monitor.log''"
definition DEFAULT_PORT :: int where "DEFAULT_PORT = 8080"
definition DEFAULT_MAX_ROOMS :: int where "DEFAULT_MAX_ROOMS = 10"
definition DEFAULT_MAX_CLIENTS :: int where "DEFAULT_MAX_CLIENTS = 50"
definition DEFAULT_COLLECTION_INTERVAL :: int where "DEFAULT_COLLECTION_INTERVAL = 5"

lemmas default_values [simp] = DEFAULT_PID_FILE_def DEFAULT_LOG_FILE_def DEFAULT_PORT_def DEFAULT_MAX_ROOMS_def
  DEFAULT_MAX_CLIENTS_def DEFAULT_COLLECTION_INTERVAL_def

definition load_configuration ::
  "conf_env \<Rightarrow> string \<Rightarrow> string option \<Rightarrow> config \<Rightarrow> int \<times> config \<times> logs" where
  "load_configuration ce config_file content cfg =
     (case content of
        None \<Rightarrow>
          (0, cfg\<lparr>cf_log_path := strncpy_c (path_size ce) DEFAULT_LOG_FILE, cf_log_level := LOG_INFO,
                 cf_structured := 1, cf_port := DEFAULT_PORT, cf_max_rooms := DEFAULT_MAX_ROOMS,
                 cf_max_clients := DEFAULT_MAX_CLIENTS, cf_interval := DEFAULT_COLLECTION_INTERVAL,
                 cf_fifo_path := strncpy_c (path_size ce) (default_fifo ce),
                 cf_procfs_path := strncpy_c (path_size ce) (default_procfs ce),
                 cf_pid_file := strncpy_c (path_size ce) DEFAULT_PID_FILE\<rparr>,
           [(LOG_WARN, ''Config file not found, using defaults'')])
      | Some s \<Rightarrow>
          (0, foldl (config_line ce) cfg (map cstr (fgets_all 511 s)),
           [(LOG_INFO, ''Configuration loaded from '' @ config_file)]))"

section \<open>Lines of key and value\<close>

definition entry_line :: "string \<Rightarrow> string \<Rightarrow> string" where
  "entry_line key v = key @ ''='' @ v"

definition key_ok :: "string \<Rightarrow> bool" where
  "key_ok key \<longleftrightarrow> key \<noteq> [] \<and> length key \<le> 127 \<and> (\<forall>c \<in> set key. \<not> isspace_c c \<and> c \<noteq> CHR ''='' \<and> c \<noteq> NUL)"

definition value_ok :: "string \<Rightarrow> bool" where
  "value_ok v \<longleftrightarrow> v \<noteq> [] \<and> length v < 255 \<and> \<not> isspace_c (hd v) \<and>
     NL \<notin> set v \<and> NUL \<notin> set v \<and> dquote \<notin> set v"

text \<open>The value of an entry is the rest of its line, with the newline.\<close>

lemma config_entry_line:
  assumes "key_ok key" and "value_ok v"
  shows "config_entry (entry_line key v @ [NL]) = Some (key, v @ [NL])"
proof -
  obtain c cs where v: "v = c # cs" using assms(2) by (cases v) (auto simp: value_ok_def)
  obtain d ds where key: "key = d # ds" using assms(1) by (cases key) (auto simp: key_ok_def)
  have eq: "\<not> isspace_c CHR ''=''" by code_simp
  have 1: "dropWhile isspace_c (key @ CHR ''='' # v @ [NL]) = key @ CHR ''='' # v @ [NL]"
    using assms(1) by (simp add: key key_ok_def)
  have "takeWhile (\<lambda>c. c \<noteq> CHR ''='') (key @ CHR ''='' # v @ [NL]) = key"
    using assms(1) by (intro takeWhile_append_stop) (auto simp: key_ok_def)
  then have 2: "scan_set 127 (\<lambda>c. c \<noteq> CHR ''='') (key @ CHR ''='' # v @ [NL]) = Some (key, CHR ''='' # v @ [NL])"
    using assms(1) by (simp add: scan_set_def key_ok_def)
  have 3: "dropWhile isspace_c (CHR ''='' # v @ [NL]) = CHR ''='' # v @ [NL]" using eq by simp
  have 4: "dropWhile isspace_c (v @ [NL]) = v @ [NL]" using assms(2) by (simp add: v value_ok_def)
  have "takeWhile (\<lambda>c. c \<noteq> dquote) (v @ [NL]) = v @ [NL]"
    using assms(2) by (auto simp: takeWhile_eq_all_conv value_ok_def dquote_def)
  moreover have "take 255 (v @ [NL]) = v @ [NL]" using assms(2) by (intro take_all) (simp add: value_ok_def)
  ultimately have 5: "scan_set 255 (\<lambda>c. c \<noteq> dquote) (v @ [NL]) = Some (v @ [NL], [])"
    by (simp add: scan_set_def del: take_append)
  have line: "entry_line key v @ [NL] = key @ CHR ''='' # v @ [NL]" by (simp add: entry_line_def)
  show ?thesis
    unfolding config_entry_def line 1 2 using eq by (simp add: literal_def) (simp add: 4 5)
qed

lemma skip_blanks_id: "\<not> isspace_c (hd s) \<Longrightarrow> skip_blanks s = s"
  by (cases s) (auto simp: skip_blanks_def isspace_c_def)

lemma config_line_entry:
  assumes "key_ok key" and "value_ok v"
  shows "config_line ce cfg (entry_line key v @ [NL]) = apply_entry ce cfg (key, v @ [NL])"
  by (simp add: config_line_def config_entry_line [OF assms])

text \<open>A text that ends in a newline is neither the name of a level nor the word true.\<close>

lemma no_level_ends_in_newline: "log_level_from_string (Some (v @ [NL])) = LOG_INFO"
proof -
  have "\<not> strcasecmp_eq (v @ [NL]) (level_name l)" for l
  proof
    assume "strcasecmp_eq (v @ [NL]) (level_name l)"
    then have "last (map tolower_c (v @ [NL])) = last (map tolower_c (level_name l))"
      by (simp only: strcasecmp_eq_def)
    then have "last (map tolower_c (level_name l)) = tolower_c NL" by simp
    moreover have "last (map tolower_c (level_name l)) \<noteq> tolower_c NL" by (cases l; hypsubst; code_simp)
    ultimately show False by simp
  qed
  then have "find (\<lambda>l. strcasecmp_eq (v @ [NL]) (level_name l)) log_levels = None"
    by (simp add: find_None_iff)
  then show ?thesis by (simp add: log_level_from_string_def)
qed

lemma no_true_ends_in_newline: "\<not> strcasecmp_eq (v @ [NL]) ''true''"
proof
  assume "strcasecmp_eq (v @ [NL]) ''true''"
  then have "last (map tolower_c (v @ [NL])) = last (map tolower_c ''true'')"
    by (simp only: strcasecmp_eq_def)
  then have "tolower_c NL = tolower_c CHR ''e''" by simp
  moreover have "tolower_c NL \<noteq> tolower_c CHR ''e''" by code_simp
  ultimately show False by simp
qed

lemma atoi_newline:
  assumes "int32 i"
  shows "atoi_c (show_int i @ [NL]) = i"
proof -
  have "\<not> isdigit_c NL" by code_simp
  then have "strtol_c (show_int i @ [NL]) = Some (i, [NL])"
    using strtol_show_int [OF assms, of "[NL]" "[]"] by simp
  then show ?thesis by (simp add: atoi_c_def int_of_long_id assms)
qed

lemma entry_line_clean:
  assumes "key_ok key" and "value_ok v"
  shows "NL \<notin> set (entry_line key v)" and "length (entry_line key v) < 511"
    and "cstr (entry_line key v @ [NL]) = entry_line key v @ [NL]"
proof -
  have "isspace_c NL" by code_simp
  then show "NL \<notin> set (entry_line key v)"
    using assms by (auto simp: entry_line_def key_ok_def value_ok_def)
  show "length (entry_line key v) < 511"
    using assms by (simp add: entry_line_def key_ok_def value_ok_def)
  have "NUL \<notin> set (entry_line key v @ [NL])"
    using assms by (auto simp: entry_line_def key_ok_def value_ok_def)
  then show "cstr (entry_line key v @ [NL]) = entry_line key v @ [NL]"
    by (intro cstr_id) (simp only: c_string_def not_False_eq_True)
qed

definition config_text :: "(string \<times> string) list \<Rightarrow> string" where
  "config_text kvs = file_lines (map (\<lambda>(k, v). entry_line k v) kvs)"

text \<open>A file of entries applies them one after the other, each value with its newline.\<close>

lemma load_entries:
  assumes "\<forall>(k, v) \<in> set kvs. key_ok k \<and> value_ok v"
  shows "fst (snd (load_configuration ce name (Some (config_text kvs)) cfg)) =
     foldl (apply_entry ce) cfg (map (\<lambda>(k, v). (k, v @ [NL])) kvs)"
proof -
  let ?lines = "map (\<lambda>(k, v). entry_line k v) kvs"
  have "fgets_all 511 (file_lines ?lines @ []) = map (\<lambda>l. l @ [NL]) ?lines @ fgets_all 511 []"
    using assms entry_line_clean(1,2) by (intro fgets_all_lines) fastforce
  then have "map cstr (fgets_all 511 (config_text kvs)) = map (\<lambda>(k, v). entry_line k v @ [NL]) kvs"
    using assms by (auto simp: config_text_def entry_line_clean(3))
  moreover have "foldl (config_line ce) cfg (map (\<lambda>(k, v). entry_line k v @ [NL]) kvs) =
      foldl (apply_entry ce) cfg (map (\<lambda>(k, v). (k, v @ [NL])) kvs)"
    using assms by (induction kvs arbitrary: cfg) (auto simp: config_line_entry)
  ultimately show ?thesis by (simp add: load_configuration_def)
qed

lemma value_skip: "value_ok v \<Longrightarrow> skip_blanks (v @ [NL]) = v @ [NL]"
  by (rule skip_blanks_id) (simp add: value_ok_def hd_append)

lemma apply_entry_known:
  assumes "skip_blanks v = v"
  shows "apply_entry ce cfg (''log_path'', v) = cfg\<lparr>cf_log_path := take (path_size ce) v\<rparr>"
    and "apply_entry ce cfg (''log_level'', v) = cfg\<lparr>cf_log_level := log_level_from_string (Some v)\<rparr>"
    and "apply_entry ce cfg (''structured_logging'', v) =
      cfg\<lparr>cf_structured := (if strcasecmp_eq v ''true'' then 1 else 0)\<rparr>"
    and "apply_entry ce cfg (''daemon_port'', v) = cfg\<lparr>cf_port := atoi_c v\<rparr>"
    and "apply_entry ce cfg (''max_rooms'', v) = cfg\<lparr>cf_max_rooms := atoi_c v\<rparr>"
    and "apply_entry ce cfg (''max_clients'', v) = cfg\<lparr>cf_max_clients := atoi_c v\<rparr>"
    and "apply_entry ce cfg (''collection_interval'', v) = cfg\<lparr>cf_interval := atoi_c v\<rparr>"
    and "apply_entry ce cfg (''fifo_path'', v) = cfg\<lparr>cf_fifo_path := take (path_size ce) v\<rparr>"
    and "apply_entry ce cfg (''procfs_path'', v) = cfg\<lparr>cf_procfs_path := take (path_size ce) v\<rparr>"
    and "apply_entry ce cfg (''pid_file'', v) = cfg\<lparr>cf_pid_file := take (path_size ce) v\<rparr>"
  using assms
  by (simp_all add: apply_entry_def strcasecmp_eq_def tolower_c_def skip_blanks_id isspace_c_def
      strncpy_c_def Let_def)

text \<open>The level and the mode that a file of entries can leave.\<close>

lemma plain_config_level:
  assumes "\<forall>(k, v) \<in> set kvs. key_ok k \<and> value_ok v"
  shows "case load_configuration ce name (Some (config_text kvs)) zero_config of (r, cfg, _) \<Rightarrow>
     r = 0 \<and> cf_structured cfg = 0 \<and> cf_log_level cfg \<in> {LOG_TRACE, LOG_INFO}"
proof -
  have "cf_structured (foldl (apply_entry ce) cfg (map (\<lambda>(k, v). (k, v @ [NL])) kvs)) = 0 \<and>
      cf_log_level (foldl (apply_entry ce) cfg (map (\<lambda>(k, v). (k, v @ [NL])) kvs)) \<in> {LOG_TRACE, LOG_INFO}"
    if "cf_structured cfg = 0" "cf_log_level cfg \<in> {LOG_TRACE, LOG_INFO}" for cfg
    using assms that
  proof (induction kvs arbitrary: cfg)
    case (Cons kv kvs)
    obtain k v where kv: "kv = (k, v)" by (cases kv)
    have "cf_structured (apply_entry ce cfg (k, v @ [NL])) = 0"
      "cf_log_level (apply_entry ce cfg (k, v @ [NL])) \<in> {LOG_TRACE, LOG_INFO}"
      using Cons.prems value_skip [of v]
      by (auto simp: kv apply_entry_def Let_def no_level_ends_in_newline no_true_ends_in_newline)
    with Cons show ?case by (simp add: kv)
  qed simp
  then show ?thesis
    using load_entries [OF assms, of ce name zero_config]
    by (simp add: zero_config_def load_configuration_def)
qed

text \<open>A key that no entry has keeps its value, whatever the others are.\<close>

definition has_key :: "string \<Rightarrow> (string \<times> string) list \<Rightarrow> bool" where
  "has_key key kvs \<longleftrightarrow> (\<exists>(k, v) \<in> set kvs. strcasecmp_eq k key)"

lemma key_skip: "key_ok k \<Longrightarrow> skip_blanks k = k"
  by (rule skip_blanks_id) (auto simp: key_ok_def)

lemma apply_entry_keeps:
  "\<not> strcasecmp_eq (skip_blanks k) ''max_clients'' \<Longrightarrow> cf_max_clients (apply_entry ce cfg (k, v)) = cf_max_clients cfg"
  "\<not> strcasecmp_eq (skip_blanks k) ''log_path'' \<Longrightarrow> cf_log_path (apply_entry ce cfg (k, v)) = cf_log_path cfg"
  by (simp_all add: apply_entry_def Let_def)

lemma missing_entries:
  assumes "\<forall>(k, v) \<in> set kvs. key_ok k \<and> value_ok v"
  shows "\<not> has_key ''max_clients'' kvs \<Longrightarrow>
      cf_max_clients (fst (snd (load_configuration ce name (Some (config_text kvs)) cfg))) = cf_max_clients cfg"
    and "\<not> has_key ''log_path'' kvs \<Longrightarrow>
      cf_log_path (fst (snd (load_configuration ce name (Some (config_text kvs)) cfg))) = cf_log_path cfg"
  unfolding load_entries [OF assms] using assms
  by (induction kvs arbitrary: cfg) (auto simp: has_key_def key_skip apply_entry_keeps)

section \<open>Properties\<close>

text \<open>Whatever entries a configuration file has, as lines of key and value without quotes, the
  level of the log and the structured mode are never the ones it names: the newline stays in
  the value, so every level is read as INFO and every structured mode as off.\<close>

theorem config_lines_never_set_level:
  assumes "\<forall>(k, v) \<in> set kvs. key_ok k \<and> value_ok v"
  shows "case load_configuration ce name (Some (config_text kvs)) zero_config of (r, cfg, _) \<Rightarrow>
     r = 0 \<and> cf_structured cfg = 0 \<and> cf_log_level cfg \<in> {LOG_TRACE, LOG_INFO}"
  by (rule plain_config_level [OF assms])

definition dev_env :: conf_env where
  "dev_env = \<lparr>path_size = 256, default_fifo = ''/tmp/monitor_fifo'', default_procfs = ''/proc/sysmonitor''\<rparr>"

theorem config_lines_never_set_level_witness:
  "case load_configuration dev_env ''m.conf''
      (Some (config_text [(''log_level'', ''ERROR''), (''structured_logging'', ''true'')])) zero_config of
    (r, cfg, _) \<Rightarrow> r = 0 \<and> cf_structured cfg = 0 \<and> cf_log_level cfg \<in> {LOG_TRACE, LOG_INFO}"
  by (rule config_lines_never_set_level) code_simp

text \<open>C29. A complete configuration file is read back as it was written as far as numbers go: port,
  limits and interval are the ones of the file; the four paths keep the newline of their line, and
  level and structured mode fall back to INFO and off.\<close>

theorem config_file_read_back:
  assumes "value_ok (cf_log_path cfg)" and "value_ok (cf_fifo_path cfg)" and "value_ok (cf_procfs_path cfg)"
    and "value_ok (cf_pid_file cfg)" and "value_ok lev" and "value_ok mode"
    and "int32 (cf_port cfg)" and "int32 (cf_max_rooms cfg)" and "int32 (cf_max_clients cfg)"
    and "int32 (cf_interval cfg)"
  shows "fst (snd (load_configuration ce name (Some (config_text
      [(''log_path'', cf_log_path cfg), (''log_level'', lev), (''structured_logging'', mode),
       (''daemon_port'', show_int (cf_port cfg)), (''max_rooms'', show_int (cf_max_rooms cfg)),
       (''max_clients'', show_int (cf_max_clients cfg)),
       (''collection_interval'', show_int (cf_interval cfg)), (''fifo_path'', cf_fifo_path cfg),
       (''procfs_path'', cf_procfs_path cfg), (''pid_file'', cf_pid_file cfg)])) cfg0)) =
     cfg\<lparr>cf_log_path := take (path_size ce) (cf_log_path cfg @ [NL]), cf_log_level := LOG_INFO,
        cf_structured := 0, cf_fifo_path := take (path_size ce) (cf_fifo_path cfg @ [NL]),
        cf_procfs_path := take (path_size ce) (cf_procfs_path cfg @ [NL]),
        cf_pid_file := take (path_size ce) (cf_pid_file cfg @ [NL])\<rparr>"
proof -
  let ?kvs = "[(''log_path'', cf_log_path cfg), (''log_level'', lev), (''structured_logging'', mode),
       (''daemon_port'', show_int (cf_port cfg)), (''max_rooms'', show_int (cf_max_rooms cfg)),
       (''max_clients'', show_int (cf_max_clients cfg)),
       (''collection_interval'', show_int (cf_interval cfg)), (''fifo_path'', cf_fifo_path cfg),
       (''procfs_path'', cf_procfs_path cfg), (''pid_file'', cf_pid_file cfg)]"
  have num: "value_ok (show_int i)" if "int32 i" for i
  proof -
    have "nat \<bar>i\<bar> < 10 ^ Suc 9" using that by (auto simp: int32_def nat_less_iff)
    then have "length (show_nat (nat \<bar>i\<bar>)) \<le> Suc 9" by (rule show_nat_length)
    then have "length (show_int i) < 255" by (auto simp: show_int_def)
    moreover have "\<not> isdigit_c dquote" "isspace_c NL" by code_simp+
    then have "dquote \<notin> set (show_int i)" "NL \<notin> set (show_int i)"
      using show_nat_digits show_int_no_space [of i] by (auto simp: show_int_def dquote_def)
    ultimately show ?thesis
      using show_int_word [of i] by (auto simp: value_ok_def is_word_def)
  qed
  have keys: "key_ok ''log_path''" "key_ok ''log_level''" "key_ok ''structured_logging''"
    "key_ok ''daemon_port''" "key_ok ''max_rooms''" "key_ok ''max_clients''" "key_ok ''collection_interval''"
    "key_ok ''fifo_path''" "key_ok ''procfs_path''" "key_ok ''pid_file''"
    by code_simp+
  note vals = assms(1-6) num [OF assms(7)] num [OF assms(8)] num [OF assms(9)] num [OF assms(10)]
  have "\<forall>(k, v) \<in> set ?kvs. key_ok k \<and> value_ok v" using keys vals by simp
  then have "fst (snd (load_configuration ce name (Some (config_text ?kvs)) cfg0)) =
      foldl (apply_entry ce) cfg0 (map (\<lambda>(k, v). (k, v @ [NL])) ?kvs)"
    by (rule load_entries)
  also have "\<dots> = cfg\<lparr>cf_log_path := take (path_size ce) (cf_log_path cfg @ [NL]), cf_log_level := LOG_INFO,
        cf_structured := 0, cf_fifo_path := take (path_size ce) (cf_fifo_path cfg @ [NL]),
        cf_procfs_path := take (path_size ce) (cf_procfs_path cfg @ [NL]),
        cf_pid_file := take (path_size ce) (cf_pid_file cfg @ [NL])\<rparr>"
    using vals atoi_newline [OF assms(7)] atoi_newline [OF assms(8)] atoi_newline [OF assms(9)]
      atoi_newline [OF assms(10)]
    by (cases cfg0, cases cfg)
      (simp add: apply_entry_known value_skip no_level_ends_in_newline no_true_ends_in_newline)
  finally show ?thesis .
qed

definition example_config :: config where
  "example_config = zero_config\<lparr>cf_log_path := ''l'', cf_fifo_path := ''f'', cf_procfs_path := ''p'',
     cf_pid_file := ''i'', cf_port := 9090, cf_max_rooms := 4, cf_max_clients := 2, cf_interval := 5\<rparr>"

theorem config_file_read_back_witness:
  "\<exists>content. fst (snd (load_configuration dev_env ''m.conf'' (Some content) zero_config)) =
     example_config\<lparr>cf_log_path := ''l'' @ [NL], cf_log_level := LOG_INFO, cf_structured := 0,
        cf_fifo_path := ''f'' @ [NL], cf_procfs_path := ''p'' @ [NL], cf_pid_file := ''i'' @ [NL]\<rparr>"
proof -
  have "value_ok ''l''" "value_ok ''f''" "value_ok ''p''" "value_ok ''i''" "value_ok ''DEBUG''" "value_ok ''true''"
    by code_simp+
  then show ?thesis
    using config_file_read_back [of example_config "''DEBUG''" "''true''" dev_env "''m.conf''" zero_config]
    by (simp add: example_config_def zero_config_def int32_def dev_env_def) blast
qed

end
