(* ===== verification/MonitorRooms.thy ===== *)
theory MonitorRooms
  imports MonitorConfig
begin

text \<open>
  The rooms of the integration daemon and its commands: the room functions and
  \<open>process_command\<close> of \<^verbatim>\<open>src/04-integration/main_daemon.c\<close>.

  The state is the part of \<open>g_daemon_state\<close> and \<open>g_daemon_stats\<close> these functions use. The room
  array has the length the missing header gives it; a loop to \<open>max_rooms\<close> that passes its end is
  a fault. A function takes what its surroundings answer (the time, whether a thread can be
  started, whether the file of the kernel module can be opened) and gives its result, the
  state, the calls made and the messages logged. A join waits for the monitor thread of the
  room; what other threads do meanwhile is not part of these definitions.

  The mutex of the rooms has a kind: the program initialises it with default attributes, so
  it is a normal one.
\<close>

section \<open>State\<close>

datatype room_state =
  ROOM_STATE_INACTIVE | ROOM_STATE_CREATED | ROOM_STATE_RUNNING | ROOM_STATE_ERROR

record 'f room_info =
  ri_name :: string
  ri_state :: room_state
  ri_created :: int
  ri_interval :: int
  ri_active :: bool
  ri_errors :: int
  ri_data :: "'f monitor_data"
  ri_updated :: int

record 'f monitor =
  g_config :: config
  g_rooms :: "'f room_info list"
  g_rooms_mutex :: mutex
  g_room_count :: int
  g_running :: bool
  g_start :: int
  g_created :: "64 word"
  g_deleted :: "64 word"
  g_commands :: "64 word"
  g_points :: "64 word"

definition zero_info :: "'f platform \<Rightarrow> 'f room_info" where
  "zero_info pf = \<lparr>ri_name = [], ri_state = ROOM_STATE_INACTIVE, ri_created = 0, ri_interval = 0,
     ri_active = False, ri_errors = 0, ri_data = zero_data pf, ri_updated = 0\<rparr>"

text \<open>The state after \<open>main\<close> has set it up, with \<open>n\<close> slots in the room array.\<close>

definition monitor_start :: "'f platform \<Rightarrow> nat \<Rightarrow> mutex_kind \<Rightarrow> config \<Rightarrow> int \<Rightarrow> 'f monitor" where
  "monitor_start pf n k cfg now = \<lparr>g_config = cfg, g_rooms = replicate n (zero_info pf),
     g_rooms_mutex = \<lparr>kind = k, depth = 0\<rparr>, g_room_count = 0, g_running = True, g_start = now,
     g_created = 0, g_deleted = 0, g_commands = 0, g_points = 0\<rparr>"

datatype mcall = Start_Thread nat | Join_Thread nat | Kernel_Write string

datatype resp_code = RESP_SUCCESS | RESP_ERROR | RESP_ROOM_NOT_FOUND | RESP_INVALID_COMMAND

record response_i =
  rs_type :: resp_code
  rs_message :: string
  rs_data :: string
  rs_time :: int

definition g_lock :: "'f monitor \<Rightarrow> 'f monitor outcome" where
  "g_lock st = bind_outcome (mutex_lock (g_rooms_mutex st)) (\<lambda>m. Inr (st\<lparr>g_rooms_mutex := m\<rparr>))"

definition g_unlock :: "'f monitor \<Rightarrow> 'f monitor" where
  "g_unlock st = st\<lparr>g_rooms_mutex := mutex_unlock (g_rooms_mutex st)\<rparr>"

section \<open>The slots\<close>

text \<open>A loop over \<open>n\<close> slots that stops at the first with the property.\<close>

fun scan_slots :: "('a \<Rightarrow> bool) \<Rightarrow> nat \<Rightarrow> 'a list \<Rightarrow> nat \<Rightarrow> nat option outcome" where
  "scan_slots P 0 rs i = Inr None"
| "scan_slots P (Suc n) rs i =
     (case rs of [] \<Rightarrow> Inl Out_Of_Bounds
      | r # rs' \<Rightarrow> if P r then Inr (Some i) else scan_slots P n rs' (Suc i))"

definition max_slots :: "'f monitor \<Rightarrow> nat" where
  "max_slots st = nat (cf_max_rooms (g_config st))"

definition named :: "'f platform \<Rightarrow> string \<Rightarrow> 'f room_info \<Rightarrow> bool" where
  "named pf name r \<longleftrightarrow>
     ri_state r \<noteq> ROOM_STATE_INACTIVE \<and> strncmp_eq (ri_name r) name (name_size pf)"

definition room_index :: "'f platform \<Rightarrow> 'f monitor \<Rightarrow> string \<Rightarrow> nat option outcome" where
  "room_index pf st name = scan_slots (named pf name) (max_slots st) (g_rooms st) 0"

definition free_index :: "'f monitor \<Rightarrow> nat option outcome" where
  "free_index st = scan_slots (\<lambda>r. ri_state r = ROOM_STATE_INACTIVE) (max_slots st) (g_rooms st) 0"

definition set_info :: "nat \<Rightarrow> ('f room_info \<Rightarrow> 'f room_info) \<Rightarrow> 'f monitor \<Rightarrow> 'f monitor" where
  "set_info i f st = st\<lparr>g_rooms := (g_rooms st)[i := f (g_rooms st ! i)]\<rparr>"

definition fill_slot :: "'f platform \<Rightarrow> string \<Rightarrow> int \<Rightarrow> int \<Rightarrow> nat \<Rightarrow> 'f monitor \<Rightarrow> 'f monitor" where
  "fill_slot pf name interval now i st =
     (set_info i (\<lambda>r. r\<lparr>ri_name := strncpy_c (name_size pf) name, ri_state := ROOM_STATE_CREATED,
        ri_created := now,
        ri_interval := (if interval > 0 then interval else cf_interval (g_config st)),
        ri_active := False, ri_errors := 0\<rparr>) st)
     \<lparr>g_room_count := g_room_count st + 1, g_created := g_created st + 1\<rparr>"

definition clear_slot :: "'f platform \<Rightarrow> nat \<Rightarrow> 'f monitor \<Rightarrow> 'f monitor" where
  "clear_slot pf i st =
     (set_info i (\<lambda>_. (zero_info pf)\<lparr>ri_state := ROOM_STATE_INACTIVE\<rparr>) st)
     \<lparr>g_room_count := g_room_count st - 1, g_deleted := g_deleted st + 1\<rparr>"

section \<open>The room functions\<close>

definition find_room_i :: "'f platform \<Rightarrow> string option \<Rightarrow> 'f monitor \<Rightarrow> (nat option \<times> 'f monitor) outcome" where
  "find_room_i pf room_name st =
     (case room_name of
        None \<Rightarrow> Inr (None, st)
      | Some name \<Rightarrow>
          bind_outcome (g_lock st) (\<lambda>st.
          bind_outcome (room_index pf st name) (\<lambda>i. Inr (i, g_unlock st))))"

definition create_room_i ::
  "'f platform \<Rightarrow> string option \<Rightarrow> int \<Rightarrow> int \<Rightarrow> 'f monitor \<Rightarrow> (int \<times> 'f monitor \<times> logs) outcome" where
  "create_room_i pf room_name interval now st =
     (case room_name of
        None \<Rightarrow> Inr (-1, st, [])
      | Some name \<Rightarrow>
          bind_outcome (g_lock st) (\<lambda>st.
          bind_outcome (room_index pf st name) (\<lambda>same.
            if same \<noteq> None then Inr (-1, g_unlock st, [])
            else
              bind_outcome (free_index st) (\<lambda>slot.
                case slot of
                  None \<Rightarrow> Inr (-1, g_unlock st, [])
                | Some i \<Rightarrow>
                    Inr (0, g_unlock (fill_slot pf name interval now i st),
                         [(LOG_INFO, ''Created new room '' @ name)])))))"

type_synonym 'f room_result = "(int \<times> 'f monitor \<times> mcall list \<times> logs) outcome"

text \<open>The last part of starting and stopping: tell the kernel module, then log.\<close>

definition tell_kernel ::
  "bool \<Rightarrow> string option \<Rightarrow> int \<Rightarrow> string \<Rightarrow> 'f monitor \<Rightarrow> mcall list \<Rightarrow> 'f room_result" where
  "tell_kernel opens room_name enable what st calls =
     (case ipc_write_kernel_control opens room_name enable of (_, written, ls) \<Rightarrow>
        Inr (0, st, calls @ (case written of None \<Rightarrow> [] | Some bytes \<Rightarrow> [Kernel_Write bytes]),
             ls @ [(LOG_INFO, what @ (case room_name of None \<Rightarrow> [] | Some name \<Rightarrow> name))]))"

definition start_room ::
  "'f platform \<Rightarrow> bool \<Rightarrow> bool \<Rightarrow> string option \<Rightarrow> 'f monitor \<Rightarrow> 'f room_result" where
  "start_room pf thread_ok opens room_name st =
     bind_outcome (g_lock st) (\<lambda>st.
     bind_outcome (find_room_i pf room_name st) (\<lambda>(room, st).
       case room of
         None \<Rightarrow> Inr (-1, g_unlock st, [], [])
       | Some i \<Rightarrow>
           if ri_state (g_rooms st ! i) = ROOM_STATE_RUNNING then Inr (0, g_unlock st, [], [])
           else
             let st = set_info i (\<lambda>r. r\<lparr>ri_active := True, ri_state := ROOM_STATE_RUNNING\<rparr>) st
             in if \<not> thread_ok then
                  Inr (-1, g_unlock (set_info i (\<lambda>r. r\<lparr>ri_state := ROOM_STATE_ERROR\<rparr>) st), [],
                       [(LOG_ERROR, ''Cannot start monitor thread for room '' @ the room_name)])
                else tell_kernel opens room_name 1 ''Started room '' (g_unlock st) [Start_Thread i]))"

definition stop_room :: "'f platform \<Rightarrow> bool \<Rightarrow> string option \<Rightarrow> 'f monitor \<Rightarrow> 'f room_result" where
  "stop_room pf opens room_name st =
     bind_outcome (g_lock st) (\<lambda>st.
     bind_outcome (find_room_i pf room_name st) (\<lambda>(room, st).
       case room of
         None \<Rightarrow> Inr (-1, g_unlock st, [], [])
       | Some i \<Rightarrow>
           if ri_state (g_rooms st ! i) \<noteq> ROOM_STATE_RUNNING then Inr (0, g_unlock st, [], [])
           else
             bind_outcome (g_lock (g_unlock (set_info i (\<lambda>r. r\<lparr>ri_active := False\<rparr>) st))) (\<lambda>st.
               tell_kernel opens room_name 0 ''Stopped room ''
                 (g_unlock (set_info i (\<lambda>r. r\<lparr>ri_state := ROOM_STATE_CREATED\<rparr>) st)) [Join_Thread i])))"

definition delete_room_i :: "'f platform \<Rightarrow> string option \<Rightarrow> 'f monitor \<Rightarrow> 'f room_result" where
  "delete_room_i pf room_name st =
     bind_outcome (g_lock st) (\<lambda>st.
     bind_outcome (find_room_i pf room_name st) (\<lambda>(room, st).
       case room of
         None \<Rightarrow> Inr (-1, g_unlock st, [], [])
       | Some i \<Rightarrow>
           bind_outcome
             (if ri_state (g_rooms st ! i) = ROOM_STATE_RUNNING then
                bind_outcome (g_lock (g_unlock (set_info i (\<lambda>r. r\<lparr>ri_active := False\<rparr>) st)))
                  (\<lambda>st. Inr (st, [Join_Thread i]))
              else Inr (st, []))
             (\<lambda>(st, calls).
                Inr (0, g_unlock (clear_slot pf i st), calls,
                     [(LOG_INFO, ''Deleted room '' @ the room_name)]))))"

section \<open>Commands\<close>

definition room_quoted :: "string \<Rightarrow> string \<Rightarrow> string \<Rightarrow> string" where
  "room_quoted before name after = before @ [CHR 0x27] @ name @ [CHR 0x27] @ after"

definition respond :: "'f platform \<Rightarrow> int \<Rightarrow> resp_code \<Rightarrow> string \<Rightarrow> string \<Rightarrow> response_i" where
  "respond pf now ty message data = \<lparr>rs_type = ty, rs_message = snprintf_c [] (resp_message_size pf) message,
     rs_data = data, rs_time = now\<rparr>"

text \<open>Success or failure of a room function, with the two texts.\<close>

definition outcome_response :: "'f platform \<Rightarrow> int \<Rightarrow> int \<Rightarrow> string \<Rightarrow> string \<Rightarrow> response_i" where
  "outcome_response pf now r done_text failed_text =
     (if r = 0 then respond pf now RESP_SUCCESS done_text [] else respond pf now RESP_ERROR failed_text [])"

definition room_data_text :: "'f platform \<Rightarrow> 'f room_info \<Rightarrow> string" where
  "room_data_text pf r = ''CPU: '' @ f_show pf (d_cpu (ri_data r)) @ ''%, Memory: '' @
     f_show pf (d_mem (ri_data r)) @ ''%, Processes: '' @ show_int (d_procs (ri_data r))"

definition room_item :: "'f room_info \<Rightarrow> string" where
  "room_item r = snprintf_c [] 128 (ri_name r @ '' ('' @
     (if ri_state r = ROOM_STATE_RUNNING then ''running'' else ''stopped'') @ ''), '')"

text \<open>The loop of the list: \<open>strncat\<close> appends what still fits in the buffer.\<close>

fun list_slots :: "nat \<Rightarrow> nat \<Rightarrow> 'f room_info list \<Rightarrow> string \<Rightarrow> string outcome" where
  "list_slots sz 0 rs buf = Inr buf"
| "list_slots sz (Suc n) rs buf =
     (case rs of [] \<Rightarrow> Inl Out_Of_Bounds
      | r # rs' \<Rightarrow>
          list_slots sz n rs'
            (if ri_state r \<noteq> ROOM_STATE_INACTIVE then buf @ take (sz - length buf - 1) (room_item r) else buf))"

definition show_room_i ::
  "'f platform \<Rightarrow> int \<Rightarrow> string \<Rightarrow> 'f monitor \<Rightarrow> (response_i \<times> 'f monitor) outcome" where
  "show_room_i pf now name st =
     bind_outcome (g_lock st) (\<lambda>st.
     bind_outcome (find_room_i pf (Some name) st) (\<lambda>(room, st).
       Inr (case room of
              None \<Rightarrow> respond pf now RESP_ROOM_NOT_FOUND (room_quoted ''Room '' name '' not found'') []
            | Some i \<Rightarrow>
                if ri_state (g_rooms st ! i) \<noteq> ROOM_STATE_INACTIVE then
                  respond pf now RESP_SUCCESS (room_quoted ''Room '' name '' data'')
                    (snprintf_c [] (resp_data_size pf) (room_data_text pf (g_rooms st ! i)))
                else respond pf now RESP_ROOM_NOT_FOUND (room_quoted ''Room '' name '' not found'') [],
            g_unlock st)))"

definition list_rooms_i :: "'f platform \<Rightarrow> int \<Rightarrow> 'f monitor \<Rightarrow> (response_i \<times> 'f monitor) outcome" where
  "list_rooms_i pf now st =
     bind_outcome (g_lock st) (\<lambda>st.
     bind_outcome (list_slots (message_size pf) (max_slots st) (g_rooms st) []) (\<lambda>room_list.
       Inr (respond pf now RESP_SUCCESS ''Active rooms'' (strncpy_c (resp_data_size pf) room_list),
            g_unlock st)))"

definition status_text :: "int \<Rightarrow> 'f monitor \<Rightarrow> string" where
  "status_text now st = ''Uptime: '' @ show_int (now - g_start st) @ '' seconds, Rooms: '' @
     show_int (g_room_count st) @ '', Commands processed: '' @ show_nat (unat (g_commands st))"

type_synonym 'f command_result = "(int \<times> response_i option \<times> 'f monitor \<times> mcall list \<times> logs) outcome"

definition counted :: "'f monitor \<Rightarrow> 'f monitor" where
  "counted st = st\<lparr>g_commands := g_commands st + 1\<rparr>"

definition process_command ::
  "'f platform \<Rightarrow> int \<Rightarrow> bool \<Rightarrow> bool \<Rightarrow> room_command option \<Rightarrow> 'f monitor \<Rightarrow> 'f command_result" where
  "process_command pf now thread_ok opens command st =
     (case command of
        None \<Rightarrow> Inr (-1, None, st, [], [])
      | Some c \<Rightarrow>
          let name = rc_name c;
              finish = (\<lambda>resp st calls ls. Inr (0, Some resp, counted st, calls, ls))
          in case rc_type c of
               CMD_CREATE_ROOM \<Rightarrow>
                 bind_outcome (create_room_i pf (Some name) (rc_param1 c) now st) (\<lambda>(r, st, ls).
                   finish (outcome_response pf now r (room_quoted ''Room '' name '' created'')
                     (room_quoted ''Failed to create room '' name [])) st [] ls)
             | CMD_START_ROOM \<Rightarrow>
                 bind_outcome (start_room pf thread_ok opens (Some name) st) (\<lambda>(r, st, calls, ls).
                   finish (outcome_response pf now r (room_quoted ''Room '' name '' started'')
                     (room_quoted ''Failed to start room '' name [])) st calls ls)
             | CMD_STOP_ROOM \<Rightarrow>
                 bind_outcome (stop_room pf opens (Some name) st) (\<lambda>(r, st, calls, ls).
                   finish (outcome_response pf now r (room_quoted ''Room '' name '' stopped'')
                     (room_quoted ''Failed to stop room '' name [])) st calls ls)
             | CMD_DELETE_ROOM \<Rightarrow>
                 bind_outcome (delete_room_i pf (Some name) st) (\<lambda>(r, st, calls, ls).
                   finish (outcome_response pf now r (room_quoted ''Room '' name '' deleted'')
                     (room_quoted ''Failed to delete room '' name [])) st calls ls)
             | CMD_SHOW_ROOM \<Rightarrow>
                 bind_outcome (show_room_i pf now name st) (\<lambda>(resp, st). finish resp st [] [])
             | CMD_LIST_ROOMS \<Rightarrow>
                 bind_outcome (list_rooms_i pf now st) (\<lambda>(resp, st). finish resp st [] [])
             | CMD_STATUS \<Rightarrow>
                 finish (respond pf now RESP_SUCCESS ''Daemon status''
                   (snprintf_c [] (resp_data_size pf) (status_text now st))) st [] []
             | CMD_OTHER _ \<Rightarrow>
                 finish (respond pf now RESP_INVALID_COMMAND ''Invalid command'' []) st [] [])"

section \<open>The table of rooms\<close>

lemma scan_slots_find:
  "n \<le> length rs \<Longrightarrow>
     scan_slots P n rs k = Inr (map_option (\<lambda>j. j + k) (find (\<lambda>j. P (rs ! j)) [0..<n]))"
proof (induction P n rs k rule: scan_slots.induct)
  case (2 P n rs i)
  then obtain r rs' where rs: "rs = r # rs'" by (cases rs) auto
  have up: "[0..<Suc n] = 0 # map Suc [0..<n]" by (simp add: map_Suc_upt upt_conv_Cons)
  have "find (\<lambda>j. P ((r # rs') ! j)) (map Suc js) = map_option Suc (find (\<lambda>j. P (rs' ! j)) js)" for js
    by (induction js) auto
  then show ?case
    using 2 by (simp add: rs up option.map_comp comp_def del: upt_Suc)
qed simp

text \<open>A name fits its array; a slot that is not used has no old data, which creating a room relies on.\<close>

definition slot_ok :: "'f platform \<Rightarrow> 'f room_info \<Rightarrow> bool" where
  "slot_ok pf r \<longleftrightarrow> length (ri_name r) \<le> name_size pf \<and>
     (ri_state r = ROOM_STATE_INACTIVE \<longrightarrow> ri_data r = zero_data pf \<and> ri_updated r = 0)"

definition table_ok :: "'f platform \<Rightarrow> 'f monitor \<Rightarrow> bool" where
  "table_ok pf st \<longleftrightarrow> max_slots st \<le> length (g_rooms st) \<and>
     (\<forall>i < max_slots st. slot_ok pf (g_rooms st ! i)) \<and>
     (\<forall>i < max_slots st. \<forall>j < max_slots st.
        ri_state (g_rooms st ! i) \<noteq> ROOM_STATE_INACTIVE \<and> ri_state (g_rooms st ! j) \<noteq> ROOM_STATE_INACTIVE \<and>
        ri_name (g_rooms st ! i) = ri_name (g_rooms st ! j) \<longrightarrow> i = j)"

definition name_ok :: "'f platform \<Rightarrow> string \<Rightarrow> bool" where
  "name_ok pf name \<longleftrightarrow> length name \<le> name_size pf"

definition is_room :: "'f monitor \<Rightarrow> string \<Rightarrow> nat \<Rightarrow> bool" where
  "is_room st name i \<longleftrightarrow> i < max_slots st \<and> ri_state (g_rooms st ! i) \<noteq> ROOM_STATE_INACTIVE \<and>
     ri_name (g_rooms st ! i) = name"

definition find_slot :: "'f monitor \<Rightarrow> string \<Rightarrow> nat option" where
  "find_slot st name =
     find (\<lambda>j. ri_state (g_rooms st ! j) \<noteq> ROOM_STATE_INACTIVE \<and> ri_name (g_rooms st ! j) = name)
       [0..<max_slots st]"

definition lookup_i :: "'f monitor \<Rightarrow> string \<Rightarrow> 'f room_info option" where
  "lookup_i st name = map_option (\<lambda>i. g_rooms st ! i) (find_slot st name)"

lemma find_slot_Some: "find_slot st name = Some i \<Longrightarrow> is_room st name i"
  by (auto simp: find_slot_def find_Some_iff is_room_def)

lemma find_slot_None: "find_slot st name = None \<longleftrightarrow> (\<forall>i. \<not> is_room st name i)"
  by (auto simp: find_slot_def find_None_iff is_room_def)

lemma is_room_unique: "table_ok pf st \<Longrightarrow> is_room st name i \<Longrightarrow> is_room st name j \<Longrightarrow> i = j"
  by (simp add: table_ok_def is_room_def)

lemma find_slot_iff: "table_ok pf st \<Longrightarrow> find_slot st name = Some i \<longleftrightarrow> is_room st name i"
  using find_slot_Some find_slot_None is_room_unique by (metis option.exhaust)

lemma lookup_i_Some:
  "table_ok pf st \<Longrightarrow> lookup_i st name = Some r \<longleftrightarrow> (\<exists>i. is_room st name i \<and> g_rooms st ! i = r)"
  by (auto simp: lookup_i_def find_slot_iff)

lemma lookup_i_None: "lookup_i st name = None \<longleftrightarrow> (\<forall>i. \<not> is_room st name i)"
  by (simp add: lookup_i_def find_slot_None)

lemma room_index_find:
  assumes "table_ok pf st"
  shows "room_index pf st name = Inr (find_slot st (take (name_size pf) name))"
proof -
  have "named pf name (g_rooms st ! j) \<longleftrightarrow> ri_state (g_rooms st ! j) \<noteq> ROOM_STATE_INACTIVE \<and>
      ri_name (g_rooms st ! j) = take (name_size pf) name" if "j < max_slots st" for j
    using assms that by (auto simp: named_def strncmp_eq_def table_ok_def slot_ok_def)
  then have "find (\<lambda>j. named pf name (g_rooms st ! j)) [0..<max_slots st] =
      find_slot st (take (name_size pf) name)"
    unfolding find_slot_def by (intro find_cong) auto
  then show ?thesis
    using assms by (simp add: room_index_def scan_slots_find table_ok_def option.map_ident)
qed

definition live_slots :: "'f monitor \<Rightarrow> 'f room_info list" where
  "live_slots st = filter (\<lambda>r. ri_state r \<noteq> ROOM_STATE_INACTIVE) (take (max_slots st) (g_rooms st))"

text \<open>Replacing the room in one slot.\<close>

definition replaces :: "'f monitor \<Rightarrow> nat \<Rightarrow> 'f room_info \<Rightarrow> 'f monitor \<Rightarrow> bool" where
  "replaces st i r st' \<longleftrightarrow>
     g_config st' = g_config st \<and> g_rooms st' = (g_rooms st)[i := r] \<and> i < max_slots st"

lemma replaces_max: "replaces st i r st' \<Longrightarrow> max_slots st' = max_slots st"
  by (simp add: replaces_def max_slots_def)

lemma is_room_replaced:
  assumes "replaces st i r st'" and "table_ok pf st"
  shows "is_room st' name j \<longleftrightarrow>
     (if j = i then ri_state r \<noteq> ROOM_STATE_INACTIVE \<and> ri_name r = name else is_room st name j)"
  using assms replaces_max [OF assms(1)] by (auto simp: is_room_def replaces_def table_ok_def)

lemma is_room_below: "is_room st name j \<Longrightarrow> j < max_slots st"
  by (simp add: is_room_def)

lemma nth_replaced:
  assumes "replaces st i r st'" and "table_ok pf st" and "j < max_slots st"
  shows "g_rooms st' ! j = (if j = i then r else g_rooms st ! j)"
  using assms by (simp add: replaces_def table_ok_def)

lemma table_okI:
  assumes "max_slots st \<le> length (g_rooms st)" and "\<And>i. i < max_slots st \<Longrightarrow> slot_ok pf (g_rooms st ! i)"
    and "\<And>name i j. is_room st name i \<Longrightarrow> is_room st name j \<Longrightarrow> i = j"
  shows "table_ok pf st"
  unfolding table_ok_def
proof (intro conjI allI impI)
  fix i j
  assume "i < max_slots st" "j < max_slots st" "ri_state (g_rooms st ! i) \<noteq> ROOM_STATE_INACTIVE \<and>
      ri_state (g_rooms st ! j) \<noteq> ROOM_STATE_INACTIVE \<and> ri_name (g_rooms st ! i) = ri_name (g_rooms st ! j)"
  then show "i = j" by (intro assms(3) [of "ri_name (g_rooms st ! i)"]) (simp_all add: is_room_def)
qed (use assms in auto)

lemma table_ok_replaced:
  assumes "replaces st i r st'" and "table_ok pf st" and "slot_ok pf r"
    and "\<And>j. ri_state r \<noteq> ROOM_STATE_INACTIVE \<Longrightarrow> is_room st (ri_name r) j \<Longrightarrow> j = i"
  shows "table_ok pf st'"
proof (rule table_okI)
  have max: "max_slots st' = max_slots st" by (rule replaces_max [OF assms(1)])
  show "max_slots st' \<le> length (g_rooms st')"
    using assms(1,2) max by (simp add: replaces_def table_ok_def)
  show "slot_ok pf (g_rooms st' ! j)" if "j < max_slots st'" for j
    using that max assms(2,3) nth_replaced [OF assms(1,2), of j] by (simp add: table_ok_def)
  show "j = k" if "is_room st' name j" "is_room st' name k" for name j k
  proof -
    note room = is_room_replaced [OF assms(1,2), of name]
    consider "j = i" "k = i" | "j \<noteq> i" "k \<noteq> i" | "j = i" "k \<noteq> i" | "j \<noteq> i" "k = i" by blast
    then show ?thesis
    proof cases
      case 2
      then show ?thesis using that room is_room_unique [OF assms(2)] by metis
    qed (use that room assms(4) in auto)
  qed
qed

lemma lookup_replaced:
  assumes "replaces st i r st'" and "table_ok pf st" and "table_ok pf st'"
  shows "lookup_i st' n = Some x \<longleftrightarrow>
     (ri_state r \<noteq> ROOM_STATE_INACTIVE \<and> ri_name r = n \<and> r = x) \<or>
     (\<exists>j. j \<noteq> i \<and> is_room st n j \<and> g_rooms st ! j = x)"
proof -
  have "is_room st' n j \<and> g_rooms st' ! j = x \<longleftrightarrow>
      is_room st' n j \<and> (if j = i then r else g_rooms st ! j) = x" for j
    using is_room_below [of st' n j] replaces_max [OF assms(1)] nth_replaced [OF assms(1,2), of j] by auto
  then show ?thesis
    unfolding lookup_i_Some [OF assms(3)] by (auto simp: is_room_replaced [OF assms(1,2)] split: if_splits)
qed

lemma option_eqI: "(\<And>x. a = Some x \<longleftrightarrow> b = Some x) \<Longrightarrow> a = b"
  by (cases a; cases b) auto

lemma lookup_other_slot:
  assumes "table_ok pf st"
  shows "(\<exists>j. j \<noteq> i \<and> is_room st n j \<and> g_rooms st ! j = x) \<longleftrightarrow>
     \<not> is_room st n i \<and> lookup_i st n = Some x"
proof
  assume "\<exists>j. j \<noteq> i \<and> is_room st n j \<and> g_rooms st ! j = x"
  then show "\<not> is_room st n i \<and> lookup_i st n = Some x"
    using is_room_unique [OF assms, of n] by (auto simp: lookup_i_Some [OF assms])
next
  assume "\<not> is_room st n i \<and> lookup_i st n = Some x"
  then show "\<exists>j. j \<noteq> i \<and> is_room st n j \<and> g_rooms st ! j = x"
    by (metis lookup_i_Some [OF assms])
qed

text \<open>The three ways the operations use a slot: fill a free one, change one, clear one.\<close>

lemma lookup_set_room:
  assumes "replaces st i r st'" and "table_ok pf st" and "table_ok pf st'"
    and "ri_state r \<noteq> ROOM_STATE_INACTIVE" and "is_room st (ri_name r) i \<or> lookup_i st (ri_name r) = None"
    and "\<And>n. is_room st n i \<Longrightarrow> n = ri_name r"
  shows "lookup_i st' = (lookup_i st)(ri_name r \<mapsto> r)"
proof
  fix n
  have "\<not> is_room st n i \<and> lookup_i st n = Some x \<longleftrightarrow> n \<noteq> ri_name r \<and> lookup_i st n = Some x" for x
    using assms(5,6) by auto
  then show "lookup_i st' n = ((lookup_i st)(ri_name r \<mapsto> r)) n"
    using assms(4) by (intro option_eqI)
      (auto simp: lookup_replaced [OF assms(1-3)] lookup_other_slot [OF assms(2)])
qed

lemma lookup_clear_room:
  assumes "replaces st i r st'" and "table_ok pf st" and "table_ok pf st'"
    and "ri_state r = ROOM_STATE_INACTIVE" and "is_room st name i"
  shows "lookup_i st' = (lookup_i st)(name := None)"
proof
  fix n
  have "is_room st n i \<longleftrightarrow> n = name" using assms(5) by (auto simp: is_room_def)
  then show "lookup_i st' n = ((lookup_i st)(name := None)) n"
    using assms(4) by (intro option_eqI)
      (auto simp: lookup_replaced [OF assms(1-3)] lookup_other_slot [OF assms(2)])
qed

section \<open>The mutex\<close>

definition held :: "'f monitor \<Rightarrow> nat \<Rightarrow> 'f monitor" where
  "held st n = st\<lparr>g_rooms_mutex := \<lparr>kind = kind (g_rooms_mutex st), depth = n\<rparr>\<rparr>"

definition free_mutex :: "mutex_kind \<Rightarrow> 'f monitor \<Rightarrow> bool" where
  "free_mutex k st \<longleftrightarrow> g_rooms_mutex st = \<lparr>kind = k, depth = 0\<rparr>"

lemma held_0 [lock_simps]: "free_mutex k st \<Longrightarrow> held st 0 = st"
  by (cases st) (simp add: held_def free_mutex_def)

lemma g_lock_free [lock_simps]: "free_mutex k st \<Longrightarrow> g_lock st = Inr (held st 1)"
  by (simp add: free_mutex_def g_lock_def mutex_lock_def held_def)

lemma g_lock_held [lock_simps]:
  "free_mutex Normal st \<Longrightarrow> g_lock (held st (Suc n)) = Inl Deadlock"
  "free_mutex Recursive st \<Longrightarrow> g_lock (held st n) = Inr (held st (Suc n))"
  by (simp_all add: free_mutex_def g_lock_def mutex_lock_def held_def)

lemma g_unlock_held [lock_simps]: "g_unlock (held st (Suc n)) = held st n"
  by (simp add: g_unlock_def mutex_unlock_def held_def)

lemma held_frame [lock_simps]:
  "g_rooms (held st n) = g_rooms st"
  "g_config (held st n) = g_config st"
  "max_slots (held st n) = max_slots st"
  "room_index pf (held st n) name = room_index pf st name"
  "free_index (held st n) = free_index st"
  "set_info i f (held st n) = held (set_info i f st) n"
  "fill_slot pf name iv now i (held st n) = held (fill_slot pf name iv now i st) n"
  "clear_slot pf i (held st n) = held (clear_slot pf i st) n"
  by (simp_all add: held_def max_slots_def room_index_def free_index_def set_info_def fill_slot_def
      clear_slot_def)

lemma free_mutex_frame [lock_simps]:
  "free_mutex k (set_info i f st) = free_mutex k st"
  "free_mutex k (fill_slot pf name iv now i st) = free_mutex k st"
  "free_mutex k (clear_slot pf i st) = free_mutex k st"
  "free_mutex k (counted st) = free_mutex k st"
  by (simp_all add: free_mutex_def set_info_def fill_slot_def clear_slot_def counted_def)

lemma table_frame [simp]:
  "table_ok pf (held st n) = table_ok pf st"
  "table_ok pf (counted st) = table_ok pf st"
  "lookup_i (counted st) = lookup_i st"
  by (simp_all add: table_ok_def held_def counted_def max_slots_def lookup_i_def find_slot_def fun_eq_iff)

section \<open>Creating and deleting\<close>

definition new_info :: "'f platform \<Rightarrow> string \<Rightarrow> int \<times> int \<Rightarrow> 'f room_info" where
  "new_info pf name = (\<lambda>(interval, now). \<lparr>ri_name = name, ri_state = ROOM_STATE_CREATED, ri_created = now,
     ri_interval = interval, ri_active = False, ri_errors = 0, ri_data = zero_data pf, ri_updated = 0\<rparr>)"

definition real_interval :: "'f monitor \<Rightarrow> int \<Rightarrow> int" where
  "real_interval st interval = (if interval > 0 then interval else cf_interval (g_config st))"

definition free_slot :: "'f monitor \<Rightarrow> nat option" where
  "free_slot st = find (\<lambda>j. ri_state (g_rooms st ! j) = ROOM_STATE_INACTIVE) [0..<max_slots st]"

lemma free_index_find: "table_ok pf st \<Longrightarrow> free_index st = Inr (free_slot st)"
  by (simp add: free_index_def free_slot_def scan_slots_find table_ok_def option.map_ident)

lemma free_slot_Some:
  "free_slot st = Some i \<Longrightarrow> i < max_slots st \<and> ri_state (g_rooms st ! i) = ROOM_STATE_INACTIVE"
  by (auto simp: free_slot_def find_Some_iff)

lemma fill_slot_replaces:
  assumes "table_ok pf st" and "i < max_slots st" and "ri_state (g_rooms st ! i) = ROOM_STATE_INACTIVE"
  shows "replaces st i (new_info pf (take (name_size pf) name) (real_interval st iv, now))
     (fill_slot pf name iv now i st)"
proof -
  have "slot_ok pf (g_rooms st ! i)" using assms(1,2) by (simp add: table_ok_def)
  then show ?thesis
    using assms(2,3) by (cases "g_rooms st ! i")
      (simp add: replaces_def fill_slot_def set_info_def new_info_def slot_ok_def strncpy_c_def real_interval_def)
qed

lemma fill_slot_table:
  fixes pf :: "'f platform"
  defines "k \<equiv> \<lambda>name. take (name_size pf) name"
  assumes "table_ok pf st" and "free_slot st = Some i" and "lookup_i st (k name) = None"
  shows "table_ok pf (fill_slot pf name iv now i st)"
    and "lookup_i (fill_slot pf name iv now i st) =
      (lookup_i st)(k name \<mapsto> new_info pf (k name) (real_interval st iv, now))"
proof -
  let ?r = "new_info pf (k name) (real_interval st iv, now)"
  let ?st = "fill_slot pf name iv now i st"
  have i: "i < max_slots st" "ri_state (g_rooms st ! i) = ROOM_STATE_INACTIVE"
    using free_slot_Some [OF assms(3)] by auto
  have r: "ri_name ?r = k name" "ri_state ?r \<noteq> ROOM_STATE_INACTIVE" "slot_ok pf ?r"
    by (simp_all add: new_info_def slot_ok_def k_def)
  have repl: "replaces st i ?r ?st"
    unfolding k_def by (rule fill_slot_replaces [OF assms(2) i])
  show ok: "table_ok pf ?st"
    using assms(4) by (intro table_ok_replaced [OF repl assms(2) r(3)]) (simp add: r(1) lookup_i_None)
  show "lookup_i ?st = (lookup_i st)(k name \<mapsto> ?r)"
    using lookup_set_room [OF repl assms(2) ok r(2)] assms(4) i(2) by (simp add: r(1) is_room_def)
qed

lemma clear_slot_replaces:
  "i < max_slots st \<Longrightarrow> replaces st i (zero_info pf) (clear_slot pf i st)"
  by (simp add: replaces_def clear_slot_def set_info_def zero_info_def)

lemma clear_slot_table:
  assumes "table_ok pf st" and "is_room st name i"
  shows "table_ok pf (clear_slot pf i st)"
    and "lookup_i (clear_slot pf i st) = (lookup_i st)(name := None)"
proof -
  have repl: "replaces st i (zero_info pf) (clear_slot pf i st)"
    by (rule clear_slot_replaces [OF is_room_below [OF assms(2)]])
  show ok: "table_ok pf (clear_slot pf i st)"
    by (rule table_ok_replaced [OF repl assms(1)]) (simp_all add: zero_info_def slot_ok_def)
  show "lookup_i (clear_slot pf i st) = (lookup_i st)(name := None)"
    by (rule lookup_clear_room [OF repl assms(1) ok _ assms(2)]) (simp add: zero_info_def)
qed

lemma set_info_table:
  assumes "table_ok pf st" and "is_room st name i"
    and "ri_state (f (g_rooms st ! i)) \<noteq> ROOM_STATE_INACTIVE" and "ri_name (f (g_rooms st ! i)) = name"
  shows "table_ok pf (set_info i f st)"
    and "lookup_i (set_info i f st) = (lookup_i st)(name \<mapsto> f (g_rooms st ! i))"
proof -
  have i: "i < max_slots st" "ri_name (g_rooms st ! i) = name" using assms(2) by (simp_all add: is_room_def)
  have repl: "replaces st i (f (g_rooms st ! i)) (set_info i f st)"
    using i by (simp add: replaces_def set_info_def)
  have "slot_ok pf (f (g_rooms st ! i))"
    using assms(1,3,4) i by (auto simp: table_ok_def slot_ok_def)
  then show ok: "table_ok pf (set_info i f st)"
    using assms(2,4) is_room_unique [OF assms(1)] by (intro table_ok_replaced [OF repl assms(1)]) auto
  show "lookup_i (set_info i f st) = (lookup_i st)(name \<mapsto> f (g_rooms st ! i))"
    using lookup_set_room [OF repl assms(1) ok assms(3)] assms(2,4) by (auto simp: is_room_def)
qed

text \<open>The table as the interface of named entries, with what the operations do to the slots.\<close>

definition try_create :: "'f platform \<Rightarrow> 'f monitor \<Rightarrow> string \<Rightarrow> nat \<times> int \<Rightarrow> 'f monitor option" where
  "try_create pf st name p =
     map_option (\<lambda>i. fill_slot pf name (int (Suc (fst p))) (snd p) i st) (free_slot st)"

definition remove_slot :: "'f platform \<Rightarrow> 'f monitor \<Rightarrow> string \<Rightarrow> 'f monitor" where
  "remove_slot pf st name = (case find_slot st name of None \<Rightarrow> st | Some i \<Rightarrow> clear_slot pf i st)"

interpretation mt: shrinking_table lookup_i "try_create pf" "\<lambda>name p. new_info pf name (int (Suc (fst p)), snd p)"
  "name_ok pf" "table_ok pf" "remove_slot pf" for pf :: "'f platform"
proof unfold_locales
  fix t k p t'
  assume t: "table_ok pf t" and k: "name_ok pf k" and none: "lookup_i t k = None"
    and add: "try_create pf t k p = Some t'"
  obtain i where i: "free_slot t = Some i" "t' = fill_slot pf k (int (Suc (fst p))) (snd p) i t"
    using add by (auto simp: try_create_def)
  have k': "take (name_size pf) k = k" using k by (simp add: name_ok_def)
  show "table_ok pf t'" "lookup_i t' = (lookup_i t)(k \<mapsto> new_info pf k (int (Suc (fst p)), snd p))"
    using fill_slot_table [OF t i(1), of k] none by (simp_all add: i(2) k' real_interval_def)
next
  fix t :: "'f monitor" and k
  assume t: "table_ok pf t"
  have *: "table_ok pf (remove_slot pf t k) \<and> lookup_i (remove_slot pf t k) = (lookup_i t)(k := None)"
  proof (cases "find_slot t k")
    case None
    then show ?thesis using t by (auto simp: remove_slot_def lookup_i_def fun_upd_idem)
  next
    case (Some i)
    then show ?thesis using clear_slot_table [OF t find_slot_Some] by (simp add: remove_slot_def)
  qed
  show "table_ok pf (remove_slot pf t k)" using * by blast
  show "lookup_i (remove_slot pf t k) = (lookup_i t)(k := None)" using * by blast
qed

section \<open>The operations\<close>

lemma scan_slots_fault: "scan_slots P n rs i \<noteq> Inl Deadlock"
  by (induction P n rs i rule: scan_slots.induct) (auto split: list.splits)

lemma list_slots_fault: "list_slots sz n rs buf \<noteq> Inl Deadlock"
  by (induction sz n rs buf rule: list_slots.induct) (auto split: list.splits)

lemma create_room_eq:
  fixes pf :: "'f platform"
  assumes "free_mutex m st" and "table_ok pf st"
  shows "create_room_i pf (Some name) iv now st =
     (if lookup_i st (take (name_size pf) name) \<noteq> None then Inr (-1, st, [])
      else case free_slot st of
        None \<Rightarrow> Inr (-1, st, [])
      | Some i \<Rightarrow> Inr (0, fill_slot pf name iv now i st, [(LOG_INFO, ''Created new room '' @ name)]))"
proof -
  have "held (fill_slot pf name iv now i st) 0 = fill_slot pf name iv now i st" for i
    by (rule held_0 [of m]) (use assms(1) in \<open>simp add: lock_simps\<close>)
  then show ?thesis
    using assms by (simp add: create_room_i_def g_lock_free held_frame room_index_find free_index_find
        g_unlock_held [of _ 0, simplified] held_0 lookup_i_def split: option.splits)
qed

lemma find_room_held:
  assumes "table_ok pf st"
  shows "free_mutex Normal st \<Longrightarrow> find_room_i pf (Some name) (held st 1) = Inl Deadlock"
    and "free_mutex Recursive st \<Longrightarrow>
      find_room_i pf (Some name) (held st 1) = Inr (find_slot st (take (name_size pf) name), held st 1)"
  using assms by (simp_all add: find_room_i_def lock_simps room_index_find g_unlock_held [of _ 1, simplified])

text \<open>With the default mutex, every function that looks a room up while it holds the lock hangs.\<close>

lemma relock_hangs:
  assumes "free_mutex Normal st"
  shows "start_room pf thread_ok opens (Some name) st = Inl Deadlock"
    and "stop_room pf opens (Some name) st = Inl Deadlock"
    and "delete_room_i pf (Some name) st = Inl Deadlock"
    and "show_room_i pf now name st = Inl Deadlock"
proof -
  have "find_room_i pf (Some name) (held st 1) = Inl Deadlock"
    using assms by (simp add: find_room_i_def lock_simps)
  then show "start_room pf thread_ok opens (Some name) st = Inl Deadlock"
    "stop_room pf opens (Some name) st = Inl Deadlock" "delete_room_i pf (Some name) st = Inl Deadlock"
    "show_room_i pf now name st = Inl Deadlock"
    using assms by (simp_all add: start_room_def stop_room_def delete_room_i_def show_room_i_def g_lock_free)
qed

lemma list_slots_text:
  assumes "n \<le> length rs" and "0 < sz" and "length buf < sz"
  shows "list_slots sz n rs buf = Inr (take (sz - 1) (buf @ concat (map room_item
     (filter (\<lambda>r. ri_state r \<noteq> ROOM_STATE_INACTIVE) (take n rs)))))"
  using assms
proof (induction n arbitrary: rs buf)
  case (Suc n)
  then obtain r rs' where rs: "rs = r # rs'" by (cases rs) auto
  have cut: "take (sz - Suc 0) ((buf @ take (sz - length buf - Suc 0) t) @ u) = take (sz - Suc 0) (buf @ t @ u)"
    for t u :: string
  proof (cases "length t \<le> sz - length buf - 1")
    case False
    then show ?thesis using Suc.prems(3) by (simp add: min_def)
  qed simp
  show ?case using Suc.prems
    by (simp add: rs Suc.IH [of rs' buf])
      (subst Suc.IH, simp_all, use cut [of "room_item r"] Suc.prems(3) in auto)
qed simp

lemma list_rooms_i_eq:
  assumes "free_mutex m st" and "table_ok pf st" and "0 < message_size pf"
  shows "list_rooms_i pf now st = Inr (respond pf now RESP_SUCCESS ''Active rooms''
     (take (resp_data_size pf) (take (message_size pf - 1) (concat (map room_item (live_slots st))))), st)"
  using assms by (simp add: list_rooms_i_def lock_simps held_0 [of m] g_unlock_held [of _ 0, simplified]
      list_slots_text table_ok_def live_slots_def strncpy_c_def)

section \<open>The program over time\<close>

type_synonym mon_event = "int \<times> bool \<times> bool \<times> room_command option"

definition mon_step :: "'f platform \<Rightarrow> 'f monitor \<Rightarrow> mon_event \<Rightarrow> 'f monitor" where
  "mon_step pf st e = (case e of (now, thread_ok, opens, c) \<Rightarrow>
     (case process_command pf now thread_ok opens c st of Inl _ \<Rightarrow> st | Inr (_, _, st', _) \<Rightarrow> st'))"

definition monitor_inv :: "'f platform \<Rightarrow> 'f monitor \<Rightarrow> bool" where
  "monitor_inv pf st \<longleftrightarrow> free_mutex Normal st \<and> table_ok pf st \<and>
     g_room_count st = int (length (live_slots st))"

lemma length_filter_all: "length (filter P xs) = length xs \<longleftrightarrow> (\<forall>x \<in> set xs. P x)"
proof (cases "\<forall>x \<in> set xs. P x")
  case False
  then have "length (filter P xs) < length xs" by (auto intro: length_filter_less)
  with False show ?thesis by simp
qed (simp add: filter_True)

lemma length_filter_update:
  assumes "i < length xs" and "\<not> P (xs ! i)" and "P r"
  shows "length (filter P (xs[i := r])) = Suc (length (filter P xs))"
proof -
  have "xs[i := r] = take i xs @ r # drop (Suc i) xs" using assms(1) by (rule upd_conv_take_nth_drop)
  moreover have "filter P xs = filter P (take i xs) @ filter P (drop (Suc i) xs)"
    using assms(1,2) id_take_nth_drop [OF assms(1)] by (metis filter.simps(2) filter_append)
  ultimately show ?thesis using assms(3) by simp
qed

lemma length_filter_update_same:
  assumes "i < length xs" and "P (xs ! i)" and "P r"
  shows "length (filter P (xs[i := r])) = length (filter P xs)"
proof -
  have "xs[i := r] = take i xs @ r # drop (Suc i) xs" using assms(1) by (rule upd_conv_take_nth_drop)
  moreover have "filter P xs = filter P (take i xs) @ xs ! i # filter P (drop (Suc i) xs)"
    using assms(1,2) id_take_nth_drop [OF assms(1)] by (metis filter.simps(2) filter_append)
  ultimately show ?thesis using assms(3) by simp
qed

lemma fill_slot_count:
  assumes "table_ok pf st" and "free_slot st = Some i"
  shows "length (live_slots (fill_slot pf name iv now i st)) = Suc (length (live_slots st))"
proof -
  have i: "i < max_slots st" "ri_state (g_rooms st ! i) = ROOM_STATE_INACTIVE"
    using free_slot_Some [OF assms(2)] by auto
  have len: "i < length (take (max_slots st) (g_rooms st))" using assms(1) i by (simp add: table_ok_def)
  define r where "r = new_info pf (take (name_size pf) name) (real_interval st iv, now)"
  have "replaces st i r (fill_slot pf name iv now i st)"
    unfolding r_def by (rule fill_slot_replaces [OF assms(1) i])
  then have "take (max_slots st) (g_rooms (fill_slot pf name iv now i st)) =
      (take (max_slots st) (g_rooms st))[i := r]" "max_slots (fill_slot pf name iv now i st) = max_slots st"
    by (simp_all add: replaces_def take_update_swap max_slots_def)
  then show ?thesis
    using length_filter_update [OF len, of "\<lambda>r. ri_state r \<noteq> ROOM_STATE_INACTIVE" r] i
    by (simp add: live_slots_def r_def new_info_def)
qed

lemma fill_slot_room_count: "g_room_count (fill_slot pf name iv now i st) = g_room_count st + 1"
  by (simp add: fill_slot_def)

lemma monitor_inv_counted [simp]: "monitor_inv pf (counted st) = monitor_inv pf st"
  by (simp add: monitor_inv_def lock_simps) (simp add: counted_def live_slots_def max_slots_def)

lemma create_inv:
  assumes "monitor_inv pf st" and "create_room_i pf (Some name) iv now st = Inr (r, st', ls)"
  shows "monitor_inv pf st'"
proof -
  have st: "free_mutex Normal st" "table_ok pf st" "g_room_count st = int (length (live_slots st))"
    using assms(1) by (simp_all add: monitor_inv_def)
  show ?thesis
    using assms(2) st fill_slot_table(1) [OF st(2)]
    by (auto simp: create_room_eq [OF st(1,2)] monitor_inv_def lock_simps fill_slot_room_count
        fill_slot_count [OF st(2)] split: if_splits option.splits)
qed

lemma mon_step_inv:
  assumes "monitor_inv pf st"
  shows "monitor_inv pf (mon_step pf st e)"
proof -
  obtain now tk op c where e: "e = (now, tk, op, c)" by (cases e)
  have st: "free_mutex Normal st" "table_ok pf st" using assms by (simp_all add: monitor_inv_def)
  show ?thesis
  proof (cases c)
    case None
    then show ?thesis using assms by (simp add: e mon_step_def process_command_def)
  next
    case (Some cmd)
    have list_inv: "st' = st" if "list_rooms_i pf now st = Inr (resp, st')" for resp st'
      using that st held_0 [of Normal st] by (simp add: list_rooms_i_def lock_simps bind_outcome_Inr
          g_unlock_held [of _ 0, simplified]) auto
    have "monitor_inv pf st'" if "process_command pf now tk op (Some cmd) st = Inr (r, resp, st', calls, ls)"
      for r resp st' calls ls
      using that assms create_inv [OF assms] list_inv
      by (cases "rc_type cmd")
        (auto simp: process_command_def bind_outcome_Inr relock_hangs [OF st(1)] Let_def)
    then show ?thesis
      using assms by (auto simp: e mon_step_def Some split: sum.splits prod.splits)
  qed
qed

lemma monitor_start_inv: "monitor_inv pf (monitor_start pf (nat (cf_max_rooms cfg) + extra) Normal cfg t0)"
  by (simp add: monitor_inv_def monitor_start_def free_mutex_def table_ok_def max_slots_def slot_ok_def
      zero_info_def live_slots_def)

interpretation mo: machine "mon_step pf" "monitor_start pf (nat (cf_max_rooms cfg) + extra) Normal cfg t0"
  "monitor_inv pf" for pf :: "'f platform" and cfg extra t0
  by unfold_locales (rule monitor_start_inv, rule mon_step_inv)

section \<open>What the functions do when the lock can be taken twice\<close>

definition starts :: "'f room_info \<Rightarrow> 'f room_info" where
  "starts r = r\<lparr>ri_active := True, ri_state := ROOM_STATE_RUNNING\<rparr>"

definition stops :: "'f room_info \<Rightarrow> 'f room_info" where
  "stops r = r\<lparr>ri_active := False, ri_state := ROOM_STATE_CREATED\<rparr>"

lemma set_info_twice: "i < length (g_rooms st) \<Longrightarrow> set_info i f (set_info i g st) = set_info i (f \<circ> g) st"
  by (simp add: set_info_def)

lemma clear_set_info: "clear_slot pf i (set_info i f st) = clear_slot pf i st"
  by (simp add: clear_slot_def set_info_def)

lemma written_digit: "show_int 0 = ''0''" "show_int 1 = ''1''"
  by code_simp+

lemma recursive_room_functions:
  fixes pf :: "'f platform"
  assumes "free_mutex Recursive st" and "table_ok pf st"
    and "find_slot st (take (name_size pf) name) = Some i"
  shows "ri_state (g_rooms st ! i) \<noteq> ROOM_STATE_RUNNING \<Longrightarrow>
      \<exists>ls. start_room pf True True (Some name) st =
        Inr (0, set_info i starts st, [Start_Thread i, Kernel_Write ''1''], ls)"
    and "ri_state (g_rooms st ! i) = ROOM_STATE_RUNNING \<Longrightarrow>
      \<exists>ls. stop_room pf True (Some name) st =
        Inr (0, set_info i stops st, [Join_Thread i, Kernel_Write ''0''], ls)"
    and "\<exists>ls. delete_room_i pf (Some name) st =
        Inr (0, clear_slot pf i st,
             (if ri_state (g_rooms st ! i) = ROOM_STATE_RUNNING then [Join_Thread i] else []), ls)"
proof -
  have i: "i < length (g_rooms st)"
    using is_room_below [OF find_slot_Some [OF assms(3)]] assms(2) by (simp add: table_ok_def)
  have free: "free_mutex Recursive (set_info i f st)" "free_mutex Recursive (clear_slot pf i st)" for f
    using assms(1) by (simp_all add: lock_simps)
  note found = find_room_held(2) [OF assms(2,1), of name, unfolded assms(3)]
  have unlock: "g_unlock (held s 1) = held s 0" for s :: "'f monitor" by (simp add: g_unlock_held)
  note base = g_lock_free [OF assms(1)] found held_frame unlock held_0 [OF assms(1)] held_0 [OF free(1)]
    held_0 [OF free(2)] g_lock_free [OF free(1)]
  show "\<exists>ls. start_room pf True True (Some name) st =
      Inr (0, set_info i starts st, [Start_Thread i, Kernel_Write ''1''], ls)"
    if "ri_state (g_rooms st ! i) \<noteq> ROOM_STATE_RUNNING"
    using that by (simp add: start_room_def base tell_kernel_def ipc_write_kernel_control_def written_digit
        starts_def [abs_def] del: One_nat_def)
  show "\<exists>ls. stop_room pf True (Some name) st =
      Inr (0, set_info i stops st, [Join_Thread i, Kernel_Write ''0''], ls)"
    if "ri_state (g_rooms st ! i) = ROOM_STATE_RUNNING"
    using that by (simp add: stop_room_def base tell_kernel_def ipc_write_kernel_control_def written_digit
        stops_def [abs_def] set_info_twice [OF i] comp_def del: One_nat_def)
  show "\<exists>ls. delete_room_i pf (Some name) st =
      Inr (0, clear_slot pf i st,
           (if ri_state (g_rooms st ! i) = ROOM_STATE_RUNNING then [Join_Thread i] else []), ls)"
    by (simp add: delete_room_i_def base clear_set_info del: One_nat_def)
qed

lemma create_exact:
  assumes "monitor_inv pf st"
  shows "let k = take (name_size pf) (rc_name c);
       ok = (lookup_i st k = None \<and> g_room_count st < int (max_slots st))
   in \<exists>st' ls.
        process_command pf now thread_ok opens (Some (c\<lparr>rc_type := CMD_CREATE_ROOM\<rparr>)) st =
          Inr (0, Some (outcome_response pf now (if ok then 0 else -1) (room_quoted ''Room '' (rc_name c) '' created'')
            (room_quoted ''Failed to create room '' (rc_name c) [])), st', [], ls) \<and>
        lookup_i st' = (if ok then (lookup_i st)(k \<mapsto> new_info pf k (real_interval st (rc_param1 c), now))
                        else lookup_i st)"
proof -
  have st: "free_mutex Normal st" "table_ok pf st" "g_room_count st = int (length (live_slots st))"
    using assms by (simp_all add: monitor_inv_def)
  have len: "length (take (max_slots st) (g_rooms st)) = max_slots st"
    using st(2) by (simp add: table_ok_def)
  have slot: "free_slot st = None \<longleftrightarrow> \<not> g_room_count st < int (max_slots st)"
  proof -
    have "free_slot st = None \<longleftrightarrow>
        (\<forall>r \<in> set (take (max_slots st) (g_rooms st)). ri_state r \<noteq> ROOM_STATE_INACTIVE)"
      using len by (auto simp: free_slot_def find_None_iff all_set_conv_all_nth)
    also have "\<dots> \<longleftrightarrow> length (live_slots st) = max_slots st"
      using length_filter_all [of "\<lambda>r. ri_state r \<noteq> ROOM_STATE_INACTIVE"
          "take (max_slots st) (g_rooms st)"]
      by (simp only: len live_slots_def)
    also have "\<dots> \<longleftrightarrow> \<not> g_room_count st < int (max_slots st)"
      using length_filter_le [of "\<lambda>r. ri_state r \<noteq> ROOM_STATE_INACTIVE" "take (max_slots st) (g_rooms st)"] len
      by (auto simp: st(3) live_slots_def)
    finally show ?thesis .
  qed
  show ?thesis
  proof (cases "lookup_i st (take (name_size pf) (rc_name c)) = None \<and> free_slot st \<noteq> None")
    case True
    then obtain i where i: "free_slot st = Some i" by auto
    show ?thesis
      using True i slot fill_slot_table(2) [OF st(2) i]
      by (simp add: process_command_def create_room_eq [OF st(1,2)] Let_def)
  next
    case False
    then show ?thesis
      using slot by (cases "free_slot st")
        (auto simp: process_command_def create_room_eq [OF st(1,2)] Let_def)
  qed
qed


section \<open>Properties\<close>


text \<open>In every state the daemon reaches by commands, creating a room succeeds exactly when no
  room has the name, cut to its array, and a slot is left below the configured maximum; then the
  rooms are the old ones and a new one with that name, the given interval or the configured one, and
  no old data. Otherwise an error is reported and the rooms stay as they are.\<close>

theorem create_command_exact:
  "let st = run (mon_step pf) (monitor_start pf (nat (cf_max_rooms cfg) + extra) Normal cfg t0) es;
       k = take (name_size pf) (rc_name c);
       ok = (lookup_i st k = None \<and> g_room_count st < int (max_slots st))
   in \<exists>resp st' ls.
        process_command pf now thread_ok opens (Some (c\<lparr>rc_type := CMD_CREATE_ROOM\<rparr>)) st =
          Inr (0, Some resp, st', [], ls) \<and>
        rs_type resp = (if ok then RESP_SUCCESS else RESP_ERROR) \<and>
        lookup_i st' = (if ok then (lookup_i st)(k \<mapsto> new_info pf k (real_interval st (rc_param1 c), now))
                        else lookup_i st)"
proof -
  let ?st = "run (mon_step pf) (monitor_start pf (nat (cf_max_rooms cfg) + extra) Normal cfg t0) es"
  have inv: "monitor_inv pf ?st" by (rule mo.inv_reached)
  have "rs_type (outcome_response pf now (if ok then 0 else -1) x y) = (if ok then RESP_SUCCESS else RESP_ERROR)" for ok x y
    by (simp add: outcome_response_def respond_def)
  then show ?thesis
    using create_exact [OF inv, where c = c and now = now and thread_ok = thread_ok and opens = opens]
    unfolding Let_def by blast
qed

text \<open>Listing the rooms gives, in every state the daemon reaches by commands, the name and state
  of each room in the order of their slots, cut to the two buffers, and changes no room.\<close>

theorem list_command_exact:
  assumes "0 < message_size pf"
  shows "let st = run (mon_step pf) (monitor_start pf (nat (cf_max_rooms cfg) + extra) Normal cfg t0) es
   in process_command pf now thread_ok opens (Some (c\<lparr>rc_type := CMD_LIST_ROOMS\<rparr>)) st =
      Inr (0, Some (respond pf now RESP_SUCCESS ''Active rooms'' (take (resp_data_size pf)
        (take (message_size pf - 1) (concat (map room_item (live_slots st)))))), counted st, [], [])"
proof -
  let ?st = "run (mon_step pf) (monitor_start pf (nat (cf_max_rooms cfg) + extra) Normal cfg t0) es"
  have "monitor_inv pf ?st" by (rule mo.inv_reached)
  then have st: "free_mutex Normal ?st" "table_ok pf ?st" by (simp_all add: monitor_inv_def)
  show ?thesis
    using list_rooms_i_eq [OF st assms] by (simp add: process_command_def Let_def)
qed


definition list_request :: room_command where
  "list_request = \<lparr>rc_type = CMD_LIST_ROOMS, rc_name = ''a'', rc_param1 = 0, rc_param2 = 0, rc_param_str = [], rc_time = 0\<rparr>"

theorem list_command_exact_witness:
  "let st = run (mon_step text_platform) (monitor_start text_platform (nat (cf_max_rooms example_config) + 0)
         Normal example_config 0) [(1, True, True, Some (list_request\<lparr>rc_type := CMD_CREATE_ROOM\<rparr>))]
   in process_command text_platform 2 True True (Some (list_request\<lparr>rc_type := CMD_LIST_ROOMS\<rparr>)) st =
      Inr (0, Some (respond text_platform 2 RESP_SUCCESS ''Active rooms'' (take (resp_data_size text_platform)
        (take (message_size text_platform - 1) (concat (map room_item (live_slots st)))))), counted st, [], [])"
  by (rule list_command_exact) (simp add: text_platform_def)

definition example_empty :: "string monitor" where
  "example_empty = monitor_start text_platform 4 Recursive example_config 0"

definition example_table :: "string monitor" where
  "example_table = fill_slot text_platform ''a'' 5 0 0 example_empty"


end
