(* ===== verification/MonitorServer.thy ===== *)
theory MonitorServer
  imports MonitorRooms
begin

text \<open>
  The threads of the integration daemon: reading commands and answering them, the client and
  network threads and the monitor thread of a room
  (\<^verbatim>\<open>src/04-integration/main_daemon.c\<close>).

  A loop that waits for input takes the list of what arrives; when the list ends it is still
  waiting, and the last component of its result is false. Shared flags a loop tests are part of each
  turn, and so is the time, which the clock gives once a turn. Messages for the logger are part of the
  result, in order.
\<close>

section \<open>Reading a command\<close>

definition cmd_word :: "string \<Rightarrow> cmd_code option" where
  "cmd_word w =
     (if w = ''create'' then Some CMD_CREATE_ROOM
      else if w = ''start'' then Some CMD_START_ROOM
      else if w = ''stop'' then Some CMD_STOP_ROOM
      else if w = ''delete'' then Some CMD_DELETE_ROOM
      else if w = ''show'' then Some CMD_SHOW_ROOM
      else if w = ''list'' then Some CMD_LIST_ROOMS
      else if w = ''status'' then Some CMD_STATUS
      else None)"

text \<open>
  \<open>sscanf(buffer, "%63s %63s %d %d", ...)\<close> into a command that holds what was there before: the
  verb, if there is one, and the command with the fields that could be read. A name as long as its
  array does not fit with its terminator.
\<close>

definition scan_request ::
  "'f platform \<Rightarrow> string \<Rightarrow> room_command \<Rightarrow> (string \<times> room_command) option outcome" where
  "scan_request pf buffer c =
     (case scan_s 63 buffer of
        None \<Rightarrow> Inr None
      | Some (verb, r) \<Rightarrow>
          (case scan_s 63 r of
             None \<Rightarrow> Inr (Some (verb, c))
           | Some (name, r) \<Rightarrow>
               if name_size pf \<le> length name then Inl Out_Of_Bounds
               else
                 (let c = c\<lparr>rc_name := name\<rparr>
                  in case scan_d r of
                       None \<Rightarrow> Inr (Some (verb, c))
                     | Some (p1, r) \<Rightarrow>
                         (let c = c\<lparr>rc_param1 := p1\<rparr>
                          in case scan_d r of
                               None \<Rightarrow> Inr (Some (verb, c))
                             | Some (p2, _) \<Rightarrow> Inr (Some (verb, c\<lparr>rc_param2 := p2\<rparr>))))))"

definition receive_command_from_client ::
  "'f platform \<Rightarrow> int \<Rightarrow> char list option \<Rightarrow> room_command \<Rightarrow> (int \<times> room_command) outcome" where
  "receive_command_from_client pf now got c =
     (case got of
        None \<Rightarrow> Inr (-1, c)
      | Some bytes \<Rightarrow>
          if bytes = [] then Inr (-1, c)
          else
            bind_outcome (scan_request pf (cstr (take 1023 bytes)) c) (\<lambda>scanned.
              Inr (case scanned of
                     None \<Rightarrow> (-1, c)
                   | Some (verb, c) \<Rightarrow>
                       (case cmd_word verb of
                          None \<Rightarrow> (-1, c)
                        | Some ty \<Rightarrow> (0, c\<lparr>rc_type := ty, rc_time := now\<rparr>)))))"

section \<open>Sending a response\<close>

definition status_word :: "resp_code \<Rightarrow> string" where
  "status_word ty = (if ty = RESP_SUCCESS then ''SUCCESS'' else ''ERROR'')"

text \<open>The bytes given to \<open>send\<close>, and the result when \<open>send\<close> returns \<open>sent\<close>.\<close>

definition send_response_to_client :: "int \<Rightarrow> response_i \<Rightarrow> (char list \<times> int) outcome" where
  "send_response_to_client sent resp =
     (let first = status_word (rs_type resp) @ '': '' @ rs_message resp;
          data_text = (if rs_data resp = [] then [] else [NL] @ ''Data: '' @ rs_data resp);
          len = length first + length data_text
      in bind_outcome
           (if rs_data resp = [] then Inr (snprintf_c [] 2048 first)
            else snprintf_at (snprintf_c [] 2048 first) 2048 (length first) data_text) (\<lambda>buffer.
         bind_outcome (snprintf_at buffer 2048 len [NL]) (\<lambda>buffer.
           let total = Suc len
           in if total < 2048 then Inr (buffer, if sent = int total then 0 else -1)
              else if total = 2048 then Inr (buffer @ [NUL], if sent = int total then 0 else -1)
              else Inl Out_Of_Bounds)))"

section \<open>A client thread\<close>

text \<open>The connection of a client; its address as \<open>inet_ntoa\<close> prints it.\<close>

record slot =
  sl_fd :: int
  sl_addr :: string
  sl_port :: int
  sl_connected :: int
  sl_last :: int
  sl_auth :: bool
  sl_active :: bool

text \<open>
  One turn: the value of the two flags at the head of the loop, what \<open>recv\<close> gives, what the
  uninitialised command on the stack holds, the answers of the surroundings and the result of
  \<open>send\<close>.
\<close>

record handler_turn =
  h_running :: bool
  h_recv :: "char list option"
  h_stack :: room_command
  h_now :: int
  h_thread_ok :: bool
  h_opens :: bool
  h_sent :: int

datatype client_out = Sent_Bytes "char list" | Room_Call mcall | Logged log_level string | Closed int

definition client_log :: "string \<Rightarrow> slot \<Rightarrow> client_out" where
  "client_log what sl = Logged LOG_INFO (what @ sl_addr sl @ '':'' @ show_int (sl_port sl))"

fun client_loop ::
  "'f platform \<Rightarrow> handler_turn list \<Rightarrow> slot \<Rightarrow> 'f monitor \<Rightarrow>
     (client_out list \<times> slot \<times> 'f monitor \<times> bool) outcome" where
  "client_loop pf [] sl st = Inr ([], sl, st, False)"
| "client_loop pf (t # ts) sl st =
     (if \<not> h_running t then Inr ([], sl, st, True)
      else
        bind_outcome (receive_command_from_client pf (h_now t) (h_recv t) (h_stack t)) (\<lambda>(r, c).
          if r \<noteq> 0 then Inr ([], sl, st, True)
          else
            bind_outcome (process_command pf (h_now t) (h_thread_ok t) (h_opens t) (Some c) st)
              (\<lambda>(_, resp, st, calls, ls).
            bind_outcome (send_response_to_client (h_sent t) (the resp)) (\<lambda>(bytes, _).
            bind_outcome (client_loop pf ts (sl\<lparr>sl_last := h_now t\<rparr>) st) (\<lambda>(out, sl, st, ended).
              Inr (map Room_Call calls @ map (case_prod Logged) ls @ Sent_Bytes bytes # out, sl, st, ended))))))"

definition client_handler_thread ::
  "'f platform \<Rightarrow> handler_turn list \<Rightarrow> slot \<Rightarrow> 'f monitor \<Rightarrow>
     (client_out list \<times> slot \<times> 'f monitor \<times> bool) outcome" where
  "client_handler_thread pf ts sl st =
     bind_outcome (client_loop pf ts sl st) (\<lambda>(out, sl', st, ended).
       Inr (client_log ''Client connected: '' sl # out @
              (if ended then [client_log ''Client disconnected: '' sl', Closed (sl_fd sl')] else []),
            if ended then sl'\<lparr>sl_active := False\<rparr> else sl', st, ended))"

section \<open>The network thread\<close>

record net =
  n_clients :: "slot list"
  n_mutex :: mutex
  n_count :: int
  n_max :: nat

text \<open>What \<open>accept\<close> answers: the text of its error with the running flag as it is then, or a
  descriptor, the address and port of the peer, the time, and whether a thread can be started for it.\<close>

datatype accept = Accept_Failed string bool | Accepted int string int int bool

datatype net_event = Accepts accept | Client_Ends nat

datatype net_call = Close_Client int | Start_Client int

definition net_lock :: "net \<Rightarrow> net outcome" where
  "net_lock n = bind_outcome (mutex_lock (n_mutex n)) (\<lambda>m. Inr (n\<lparr>n_mutex := m\<rparr>))"

definition net_unlock :: "net \<Rightarrow> net" where
  "net_unlock n = n\<lparr>n_mutex := mutex_unlock (n_mutex n)\<rparr>"

definition set_slot :: "nat \<Rightarrow> slot \<Rightarrow> net \<Rightarrow> net" where
  "set_slot i sl n = n\<lparr>n_clients := (n_clients n)[i := sl]\<rparr>"

definition new_slot :: "int \<Rightarrow> string \<Rightarrow> int \<Rightarrow> int \<Rightarrow> slot" where
  "new_slot fd addr port now = \<lparr>sl_fd = fd, sl_addr = addr, sl_port = port, sl_connected = now,
     sl_last = now, sl_auth = True, sl_active = True\<rparr>"

text \<open>One turn of the loop.\<close>

fun accept_turn :: "accept \<Rightarrow> net \<Rightarrow> (net \<times> net_call list \<times> logs) outcome" where
  "accept_turn (Accept_Failed err running) n =
     Inr (n, [], if running then [(LOG_ERROR, ''Accept failed: '' @ err)] else [])"
| "accept_turn (Accepted fd addr port now thread_ok) n =
     bind_outcome (net_lock n) (\<lambda>n.
     bind_outcome (scan_slots (\<lambda>s. \<not> sl_active s) (n_max n) (n_clients n) 0) (\<lambda>client_slot.
       case client_slot of
         None \<Rightarrow> Inr (net_unlock n, [Close_Client fd], [(LOG_WARN, ''Max clients reached, rejecting connection'')])
       | Some i \<Rightarrow>
           (let n = set_slot i (new_slot fd addr port now) n
            in if thread_ok then Inr (net_unlock (n\<lparr>n_count := n_count n + 1\<rparr>), [Start_Client fd], [])
               else
                 Inr (net_unlock (set_slot i ((new_slot fd addr port now)\<lparr>sl_active := False\<rparr>) n),
                      [Close_Client fd], [(LOG_ERROR, ''Failed to create client handler thread'')]))))"

text \<open>The loop; each turn comes with the running flag at its head.\<close>

fun network_loop :: "(bool \<times> accept) list \<Rightarrow> net \<Rightarrow> (net \<times> net_call list \<times> logs \<times> bool) outcome" where
  "network_loop [] n = Inr (n, [], [], False)"
| "network_loop ((running, a) # ts) n =
     (if \<not> running then Inr (n, [], [], True)
      else
        bind_outcome (accept_turn a n) (\<lambda>(n, calls, ls).
        bind_outcome (network_loop ts n) (\<lambda>(n, calls', ls', ended).
          Inr (n, calls @ calls', ls @ ls', ended))))"

definition network_thread ::
  "int \<Rightarrow> (bool \<times> accept) list \<Rightarrow> net \<Rightarrow> (net \<times> net_call list \<times> logs \<times> bool) outcome" where
  "network_thread port ts n =
     bind_outcome (network_loop ts n) (\<lambda>(n, calls, ls, ended).
       Inr (n, calls, (LOG_INFO, ''Starting network thread on port '' @ show_int port) # ls @
              (if ended then [(LOG_INFO, ''Network thread stopped'')] else []), ended))"

text \<open>A client thread ends: it closes its socket and gives its slot back.\<close>

definition client_ends :: "nat \<Rightarrow> net \<Rightarrow> net \<times> net_call list" where
  "client_ends i n =
     (if i < length (n_clients n) \<and> sl_active (n_clients n ! i) then
        (set_slot i ((n_clients n ! i)\<lparr>sl_active := False\<rparr>) n, [Close_Client (sl_fd (n_clients n ! i))])
      else (n, []))"

text \<open>The network thread and the client threads side by side.\<close>

fun net_step :: "net \<Rightarrow> net_event \<Rightarrow> net" where
  "net_step n (Accepts a) = (case accept_turn a n of Inl _ \<Rightarrow> n | Inr (n', _) \<Rightarrow> n')"
| "net_step n (Client_Ends i) = fst (client_ends i n)"

definition zero_slot :: slot where
  "zero_slot = \<lparr>sl_fd = 0, sl_addr = [], sl_port = 0, sl_connected = 0, sl_last = 0, sl_auth = False,
     sl_active = False\<rparr>"

definition net_start :: "nat \<Rightarrow> nat \<Rightarrow> net" where
  "net_start m slots =
     \<lparr>n_clients = replicate slots zero_slot, n_mutex = \<lparr>kind = Normal, depth = 0\<rparr>, n_count = 0, n_max = m\<rparr>"

section \<open>The monitor thread of a room\<close>

text \<open>One turn: whether the daemon and the room are still active, the files, and the time.\<close>

record monitor_turn =
  m_active :: bool
  m_files :: proc_files
  m_now :: int

definition collected_log :: "'f platform \<Rightarrow> string \<Rightarrow> 'f monitor_data \<Rightarrow> log_level \<times> string" where
  "collected_log pf name d = (LOG_DEBUG, ''Collected data for room '' @ name @ '': CPU='' @
     f_show pf (d_cpu d) @ ''% MEM='' @ f_show pf (d_mem d) @ ''% PROC='' @ show_int (d_procs d))"

fun monitor_loop ::
  "'f platform \<Rightarrow> nat \<Rightarrow> monitor_turn list \<Rightarrow> 'f monitor \<Rightarrow> ipc \<Rightarrow>
     ('f monitor \<times> ipc \<times> logs \<times> bool) outcome" where
  "monitor_loop pf i [] st ip = Inr (st, ip, [], False)"
| "monitor_loop pf i (t # ts) st ip =
     (if \<not> m_active t then Inr (st, ip, [], True)
      else
        (let name = ri_name (g_rooms st ! i)
         in case ipc_read_kernel_data pf (m_files t) (m_now t) (Some name) (Some (zero_data pf)) ip of
              (r, data, ip, ls) \<Rightarrow>
           if r = 0 then
             bind_outcome (g_lock st) (\<lambda>st.
             bind_outcome (monitor_loop pf i ts
                 (g_unlock ((set_info i (\<lambda>ri. ri\<lparr>ri_data := the data, ri_updated := m_now t\<rparr>) st)
                   \<lparr>g_points := g_points st + 1\<rparr>)) ip) (\<lambda>(st, ip, ls', ended).
               Inr (st, ip, ls @ collected_log pf name (the data) # ls', ended)))
           else
             (let st = set_info i (\<lambda>ri. ri\<lparr>ri_errors := ri_errors ri + 1\<rparr>) st;
                  ls = ls @ [(LOG_WARN, ''Failed to collect data for room '' @ name)]
              in if ri_errors (g_rooms st ! i) > 10 then
                   Inr (set_info i (\<lambda>ri. ri\<lparr>ri_state := ROOM_STATE_ERROR\<rparr>) st, ip,
                        ls @ [(LOG_ERROR, ''Too many errors for room '' @ name @ '', stopping monitoring'')], True)
                 else
                   bind_outcome (monitor_loop pf i ts st ip) (\<lambda>(st, ip, ls', ended).
                     Inr (st, ip, ls @ ls', ended)))))"

definition room_monitor_thread ::
  "'f platform \<Rightarrow> nat \<Rightarrow> monitor_turn list \<Rightarrow> 'f monitor \<Rightarrow> ipc \<Rightarrow>
     ('f monitor \<times> ipc \<times> logs \<times> bool) outcome" where
  "room_monitor_thread pf i ts st ip =
     bind_outcome (monitor_loop pf i ts st ip) (\<lambda>(st', ip, ls, ended).
       Inr (st', ip,
            (LOG_INFO, ''Starting monitoring thread for room '' @ ri_name (g_rooms st ! i)) # ls @
              (if ended then [(LOG_INFO, ''Monitoring thread stopped for room '' @ ri_name (g_rooms st' ! i))]
               else []), ended))"

section \<open>Requests and responses\<close>

lemma scan_s_first:
  assumes "is_word w" and "length w \<le> width"
  shows "scan_s width (w @ CHR '' '' # rest) = Some (w, CHR '' '' # rest)" and "scan_s width w = Some (w, [])"
  using scan_s_word [OF assms, of "CHR '' '' # rest" "[]"] scan_s_word [OF assms, of "[]" "[]"]
  by (simp_all add: isspace_c_def)

lemma scan_s_blank_word:
  assumes "is_word w" and "length w \<le> width" and "rest = [] \<or> isspace_c (hd rest)"
  shows "scan_s width (CHR '' '' # w @ rest) = Some (w, rest)"
  using scan_s_word [OF assms, of "'' ''"] by (simp add: isspace_c_def)

lemma scan_d_blank_int: "int32 i \<Longrightarrow> scan_d (CHR '' '' # show_int i) = Some (i, [])"
  using scan_d_show_int [of i "'' ''"] by (simp add: isspace_c_def)

lemma verbs_are_words: "cmd_word verb = Some ty \<Longrightarrow> is_word verb \<and> length verb \<le> 63"
  by (auto simp: cmd_word_def is_word_def isspace_c_def split: if_splits)

definition request_line :: "string \<Rightarrow> string \<Rightarrow> int \<Rightarrow> string" where
  "request_line verb name p = verb @ CHR '' '' # name @ CHR '' '' # show_int p"

lemma scan_request_line:
  assumes "is_word verb" and "length verb \<le> 63" and "is_word name" and "length name \<le> 63"
    and "length name < name_size pf" and "int32 p"
  shows "scan_request pf (request_line verb name p) c = Inr (Some (verb, c\<lparr>rc_name := name, rc_param1 := p\<rparr>))"
proof -
  have "scan_d [] = None" by (simp add: scan_d_def strtol_c_def scan_sign_def)
  then show ?thesis
    using assms(5) scan_s_first(1) [OF assms(1,2), of "name @ CHR '' '' # show_int p"]
      scan_s_blank_word [OF assms(3,4), of "CHR '' '' # show_int p"] scan_d_blank_int [OF assms(6)]
    by (simp add: scan_request_def request_line_def isspace_c_def)
qed

section \<open>Slots of clients\<close>

definition net_inv :: "net \<Rightarrow> bool" where
  "net_inv n \<longleftrightarrow> n_mutex n = \<lparr>kind = Normal, depth = 0\<rparr> \<and> n_max n \<le> length (n_clients n) \<and>
     (\<forall>i. n_max n \<le> i \<longrightarrow> i < length (n_clients n) \<longrightarrow> \<not> sl_active (n_clients n ! i))"

definition net_held :: "net \<Rightarrow> net" where "net_held n = n\<lparr>n_mutex := \<lparr>kind = Normal, depth = 1\<rparr>\<rparr>"

lemma net_locks [lock_simps]:
  assumes "n_mutex n = \<lparr>kind = Normal, depth = 0\<rparr>"
  shows "net_lock n = Inr (net_held n)" and "net_unlock (net_held n) = n"
    and "net_unlock ((net_held n)\<lparr>n_count := c\<rparr>) = n\<lparr>n_count := c\<rparr>"
  using assms by (cases n; simp add: net_lock_def mutex_lock_def net_unlock_def mutex_unlock_def net_held_def)+

lemma net_held_frame [lock_simps]:
  "set_slot i sl (net_held n) = net_held (set_slot i sl n)"
  "n_clients (net_held n) = n_clients n" "n_max (net_held n) = n_max n" "n_count (net_held n) = n_count n"
  by (simp_all add: set_slot_def net_held_def)

lemma set_slot_frame [simp]:
  "n_mutex (set_slot i sl n) = n_mutex n" "n_max (set_slot i sl n) = n_max n"
  "n_count (set_slot i sl n) = n_count n" "n_clients (set_slot i sl n) = (n_clients n)[i := sl]"
  "set_slot i sl' (set_slot i sl n) = set_slot i sl' n"
  by (simp_all add: set_slot_def)

lemma accepted_cases:
  assumes "net_inv n"
  shows "accept_turn (Accepted fd addr port now ok) n =
     (case find (\<lambda>j. \<not> sl_active (n_clients n ! j)) [0..<n_max n] of
        None \<Rightarrow> Inr (n, [Close_Client fd], [(LOG_WARN, ''Max clients reached, rejecting connection'')])
      | Some i \<Rightarrow>
          if ok then Inr ((set_slot i (new_slot fd addr port now) n)\<lparr>n_count := n_count n + 1\<rparr>,
                          [Start_Client fd], [])
          else Inr (set_slot i ((new_slot fd addr port now)\<lparr>sl_active := False\<rparr>) n,
                    [Close_Client fd], [(LOG_ERROR, ''Failed to create client handler thread'')]))"
  using assms
  by (cases "find (\<lambda>j. \<not> sl_active (n_clients n ! j)) [0..<n_max n]")
    (simp_all add: net_inv_def lock_simps scan_slots_find Let_def del: One_nat_def)

lemma net_step_inv:
  assumes "net_inv n"
  shows "net_inv (net_step n e)"
proof (cases e)
  case (Accepts a)
  then show ?thesis
  proof (cases a)
    case (Accepted fd addr port now ok)
    then show ?thesis
      using assms Accepts
      by (auto simp: accepted_cases net_inv_def find_Some_iff nth_list_update simp del: accept_turn.simps
          split: option.splits)
  qed (use assms in simp)
next
  case (Client_Ends i)
  then show ?thesis
    using assms by (auto simp: net_inv_def client_ends_def nth_list_update)
qed

lemma net_start_inv: "net_inv (net_start m (m + extra))"
  by (simp add: net_inv_def net_start_def zero_slot_def)

interpretation ne: machine net_step "net_start m (m + extra)" net_inv for m extra
  by unfold_locales (rule net_start_inv, rule net_step_inv)

lemma net_step_max:
  assumes "net_inv n"
  shows "n_max (net_step n e) = n_max n"
proof (cases e)
  case (Accepts a)
  then show ?thesis
    using assms by (cases a) (auto simp: accepted_cases simp del: accept_turn.simps(2) split: option.splits)
qed (simp add: client_ends_def)

text \<open>The loop of the network thread is a run of these steps.\<close>

lemma network_loop_run:
  "network_loop ts n = Inr (n', calls, ls, ended) \<Longrightarrow>
     n' = run net_step n (map (Accepts \<circ> snd) (takeWhile fst ts)) \<and> (ended \<longleftrightarrow> \<not> list_all fst ts)"
  by (induction ts n arbitrary: calls ls rule: network_loop.induct)
    (auto simp: bind_outcome_Inr split: if_splits simp del: accept_turn.simps)

lemma active_below_max:
  assumes "net_inv n"
  shows "filter sl_active (n_clients n) = filter sl_active (take (n_max n) (n_clients n))"
proof -
  have "filter sl_active (drop (n_max n) (n_clients n)) = []"
    using assms by (auto simp: net_inv_def filter_empty_conv in_set_conv_nth)
  then show ?thesis by (metis append_take_drop_id filter_append append_Nil2)
qed

section \<open>Sampling a room\<close>

lemma kernel_tokens_name: "d_name (foldl (kernel_token pf) d ts) = d_name d"
  by (induction ts arbitrary: d) (simp_all add: kernel_token_def)

lemma read_kernel_data_succeeds:
  "\<exists>d ip' ls. ipc_read_kernel_data pf fs now (Some name) (Some d0) ip = (0, Some d, ip', ls) \<and>
     d_name d = take (name_size pf - 1) name"
  by (auto simp: ipc_read_kernel_data_def set_name_def strncpy_c_def Let_def kernel_tokens_name
      split: option.splits prod.splits)

definition sampled :: "nat \<Rightarrow> 'f monitor_data \<Rightarrow> int \<Rightarrow> 'f monitor \<Rightarrow> 'f monitor" where
  "sampled i d now st =
     (set_info i (\<lambda>ri. ri\<lparr>ri_data := d, ri_updated := now\<rparr>) st)\<lparr>g_points := g_points st + 1\<rparr>"

lemma sampled_frame:
  "free_mutex k (sampled i d now st) = free_mutex k st"
  "length (g_rooms (sampled i d now st)) = length (g_rooms st)"
  "g_points (sampled i d now st) = g_points st + 1"
  "j \<noteq> i \<Longrightarrow> g_rooms (sampled i d now st) ! j = g_rooms st ! j"
  "i < length (g_rooms st) \<Longrightarrow>
     g_rooms (sampled i d now st) ! i = (g_rooms st ! i)\<lparr>ri_data := d, ri_updated := now\<rparr>"
  by (simp_all add: sampled_def set_info_def free_mutex_def)

text \<open>Storing a sample in a live room keeps the table well formed.\<close>

lemma monitor_inv_sampled:
  assumes "monitor_inv pf st" and "i < max_slots st" and "ri_state (g_rooms st ! i) \<noteq> ROOM_STATE_INACTIVE"
  shows "monitor_inv pf (sampled i d now st)"
proof -
  let ?f = "\<lambda>ri :: 'a room_info. ri\<lparr>ri_data := d, ri_updated := now\<rparr>" and ?live = "\<lambda>r :: 'a room_info. ri_state r \<noteq> ROOM_STATE_INACTIVE"
  have st: "free_mutex Normal st" "table_ok pf st" "g_room_count st = int (length (live_slots st))"
    using assms(1) by (simp_all add: monitor_inv_def)
  have "is_room st (ri_name (g_rooms st ! i)) i" using assms(2,3) by (simp add: is_room_def)
  then have "table_ok pf (set_info i ?f st)" using set_info_table(1) [OF st(2), of _ i ?f] assms(3) by simp
  then have "table_ok pf (sampled i d now st)" by (simp add: sampled_def table_ok_def max_slots_def)
  moreover have "length (live_slots (sampled i d now st)) = length (live_slots st)"
  proof -
    have "max_slots st \<le> length (g_rooms st)" using st(2) by (simp add: table_ok_def)
    then have "length (filter ?live ((take (max_slots st) (g_rooms st))[i := ?f (g_rooms st ! i)])) = length (live_slots st)"
      unfolding live_slots_def using assms(2,3) by (intro length_filter_update_same) simp_all
    then show ?thesis
      by (simp add: live_slots_def sampled_def set_info_def max_slots_def take_update_swap)
  qed
  ultimately show ?thesis using st by (simp add: monitor_inv_def sampled_frame) (simp add: sampled_def set_info_def)
qed

lemma monitor_turn_samples:
  assumes "free_mutex Normal st" and "m_active t"
  shows "\<exists>d ip' ls. d_name d = take (name_size pf - 1) (ri_name (g_rooms st ! i)) \<and>
     monitor_loop pf i (t # ts) st ip =
       bind_outcome (monitor_loop pf i ts (sampled i d (m_now t) st) ip') (\<lambda>(st, ip, ls', ended).
         Inr (st, ip, ls @ ls', ended))"
proof -
  obtain d ip' ls where d: "ipc_read_kernel_data pf (m_files t) (m_now t) (Some (ri_name (g_rooms st ! i)))
      (Some (zero_data pf)) ip = (0, Some d, ip', ls)" "d_name d = take (name_size pf - 1) (ri_name (g_rooms st ! i))"
    using read_kernel_data_succeeds by blast
  let ?f = "\<lambda>ri :: 'a room_info. ri\<lparr>ri_data := d, ri_updated := m_now t\<rparr>"
  have free: "free_mutex Normal (sampled i d (m_now t) st)" using assms(1) by (simp add: sampled_frame)
  have "(set_info i ?f (held st 1))\<lparr>g_points := g_points (held st 1) + 1\<rparr> = held (sampled i d (m_now t) st) 1"
    by (simp add: held_frame) (simp add: held_def sampled_def set_info_def)
  then have unlock: "g_unlock ((set_info i ?f (held st 1))\<lparr>g_points := g_points (held st 1) + 1\<rparr>) =
      sampled i d (m_now t) st"
    using g_unlock_held [of "sampled i d (m_now t) st" 0] held_0 [OF free] by simp
  show ?thesis
    by (rule exI [of _ d], rule exI [of _ ip'],
        rule exI [of _ "ls @ [collected_log pf (ri_name (g_rooms st ! i)) d]"])
      (simp add: d assms(2) g_lock_free [OF assms(1)] unlock del: One_nat_def)
qed

lemma monitor_loop_run:
  assumes "free_mutex Normal st" and "i < length (g_rooms st)" and "ts \<noteq> []" and "\<forall>t \<in> set ts. m_active t"
  shows "\<exists>st' ip' d ls. monitor_loop pf i ts st ip = Inr (st', ip', ls, False) \<and>
     g_points st' = g_points st + of_nat (length ts) \<and>
     (\<forall>j. j \<noteq> i \<longrightarrow> g_rooms st' ! j = g_rooms st ! j) \<and>
     g_rooms st' ! i = (g_rooms st ! i)\<lparr>ri_data := d, ri_updated := m_now (last ts)\<rparr> \<and>
     d_name d = take (name_size pf - 1) (ri_name (g_rooms st ! i))"
  using assms
proof (induction ts arbitrary: st ip)
  case (Cons t ts)
  have "m_active t" using Cons.prems(4) by simp
  then obtain d ip' ls where d: "d_name d = take (name_size pf - 1) (ri_name (g_rooms st ! i))"
    "monitor_loop pf i (t # ts) st ip =
       bind_outcome (monitor_loop pf i ts (sampled i d (m_now t) st) ip') (\<lambda>(st, ip, ls', ended).
         Inr (st, ip, ls @ ls', ended))"
    using monitor_turn_samples [OF Cons.prems(1)] by blast
  show ?case
  proof (cases "ts = []")
    case True
    then show ?thesis using d Cons.prems(2) by (auto simp: sampled_frame)
  next
    case False
    have "free_mutex Normal (sampled i d (m_now t) st)" "i < length (g_rooms (sampled i d (m_now t) st))"
      using Cons.prems by (simp_all add: sampled_frame)
    from Cons.IH [OF this False, of ip'] Cons.prems(2,4) False show ?thesis
      unfolding d(2) by (auto simp: sampled_frame)
  qed
qed simp

section \<open>Properties\<close>

text \<open>C17. At most the configured number of clients is served at any time: whatever connected and left
  before, a new connection gets a slot nobody uses when fewer are active, and is closed at once
  otherwise, without a change.\<close>

theorem clients_bounded:
  "let n = run net_step (net_start m (m + extra)) es
   in length (filter sl_active (n_clients n)) \<le> m \<and>
      (if length (filter sl_active (n_clients n)) < m
       then \<exists>i < m. \<not> sl_active (n_clients n ! i) \<and>
         accept_turn (Accepted fd addr port now True) n =
           Inr ((set_slot i (new_slot fd addr port now) n)\<lparr>n_count := n_count n + 1\<rparr>, [Start_Client fd], [])
       else accept_turn (Accepted fd addr port now True) n =
         Inr (n, [Close_Client fd], [(LOG_WARN, ''Max clients reached, rejecting connection'')]))"
proof -
  let ?n = "run net_step (net_start m (m + extra)) es"
  have inv: "net_inv ?n" by (rule ne.inv_reached)
  have "n_max ?n = n_max (net_start m (m + extra))"
    by (rule ne.run_keeps [OF net_step_max ne.inv_start])
  then have m: "n_max ?n = m" by (simp add: net_start_def)
  have len: "length (take m (n_clients ?n)) = m" using inv by (simp add: net_inv_def m)
  have active: "filter sl_active (n_clients ?n) = filter sl_active (take m (n_clients ?n))"
    using active_below_max [OF inv] by (simp only: m)
  have le: "length (filter sl_active (n_clients ?n)) \<le> m"
    using length_filter_le [of sl_active "take m (n_clients ?n)"] by (simp only: active len)
  have "find (\<lambda>j. \<not> sl_active (n_clients ?n ! j)) [0..<m] = None \<longleftrightarrow> (\<forall>s \<in> set (take m (n_clients ?n)). sl_active s)"
    using len by (auto simp: find_None_iff all_set_conv_all_nth)
  also have "\<dots> \<longleftrightarrow> length (filter sl_active (n_clients ?n)) = m"
    using length_filter_all [of sl_active "take m (n_clients ?n)"] by (simp only: active len)
  finally have full: "find (\<lambda>j. \<not> sl_active (n_clients ?n ! j)) [0..<m] = None \<longleftrightarrow>
      \<not> length (filter sl_active (n_clients ?n)) < m" using le by auto
  note turn = accepted_cases [OF inv, of fd addr port now True, unfolded m]
  show ?thesis
  proof (cases "find (\<lambda>j. \<not> sl_active (n_clients ?n ! j)) [0..<m]")
    case None
    then show ?thesis using full le turn by (simp add: Let_def del: accept_turn.simps)
  next
    case (Some i)
    then have "i < m" "\<not> sl_active (n_clients ?n ! i)" by (auto simp: find_Some_iff)
    then show ?thesis using Some full le turn by (auto simp: Let_def simp del: accept_turn.simps)
  qed
qed

text \<open>A response shorter than the 2048-byte buffer is sent whole: the status word, the message, the
  data on a line of its own if there is any, and a newline.\<close>

theorem response_sent_whole:
  assumes "length (status_word (rs_type resp)) + length (rs_message resp) + length (rs_data resp) < 2037"
  shows "\<exists>r. send_response_to_client sent resp =
     Inr (status_word (rs_type resp) @ '': '' @ rs_message resp @
          (if rs_data resp = [] then [] else [NL] @ ''Data: '' @ rs_data resp) @ [NL], r)"
proof -
  define first where "first = status_word (rs_type resp) @ '': '' @ rs_message resp"
  define extra where "extra = (if rs_data resp = [] then [] else [NL] @ ''Data: '' @ rs_data resp)"
  have len: "length first + length extra < 2046" using assms by (simp add: first_def extra_def)
  have none: "rs_data resp = [] \<Longrightarrow> extra = []" by (simp add: extra_def)
  have 1: "snprintf_c [] 2048 first = first" using len by (intro snprintf_fits) simp
  have "snprintf_at first 2048 (length first) extra = Inr (first @ extra)"
    using snprintf_at_end [of first 2048 extra] len by simp
  then have 2: "(if rs_data resp = [] then Inr first else snprintf_at first 2048 (length first) extra) =
      Inr (first @ extra)"
    using none by simp
  have 3: "snprintf_at (first @ extra) 2048 (length first + length extra) [NL] = Inr ((first @ extra) @ [NL])"
    using snprintf_at_end [of "first @ extra" 2048 "[NL]"] len by simp
  have "send_response_to_client sent resp =
      Inr ((first @ extra) @ [NL], if sent = int (Suc (length first + length extra)) then 0 else -1)"
    unfolding send_response_to_client_def Let_def first_def [symmetric] extra_def [symmetric] 1 2
      bind_outcome_simps 3
    using len by simp
  then show ?thesis by (simp add: first_def extra_def)
qed

text \<open>A request line is read as it is meant: verb, name and number arrive in the command. A line
  that is only a verb leaves in the command what was there before, which the caller never set.\<close>

theorem request_line_read:
  assumes "cmd_word verb = Some ty" and "is_word name" and "length name \<le> 63" and "63 < name_size pf"
    and "int32 p"
  shows "receive_command_from_client pf now (Some (request_line verb name p)) c =
      Inr (0, c\<lparr>rc_name := name, rc_param1 := p, rc_type := ty, rc_time := now\<rparr>) \<and>
    receive_command_from_client pf now (Some verb) c = Inr (0, c\<lparr>rc_type := ty, rc_time := now\<rparr>)"
proof -
  have verb: "is_word verb" "length verb \<le> 63" using verbs_are_words [OF assms(1)] by auto
  have "nat \<bar>p\<bar> < 10 ^ Suc 9" using assms(5) by (auto simp: int32_def nat_less_iff)
  then have "length (show_nat (nat \<bar>p\<bar>)) \<le> Suc 9" by (rule show_nat_length)
  then have "length (show_int p) \<le> 11" by (auto simp: show_int_def)
  then have len: "length (request_line verb name p) \<le> 1023"
    using verb(2) assms(3) by (simp add: request_line_def)
  have "NUL \<notin> set (request_line verb name p)"
    using verb(1) assms(2) show_int_no_space [of p] by (auto simp: request_line_def is_word_def)
  then have line: "cstr (take 1023 (request_line verb name p)) = request_line verb name p"
    using len by (simp add: c_string_def)
  have "NUL \<notin> set verb" using verb(1) by (auto simp: is_word_def)
  then have single: "cstr (take 1023 verb) = verb" using verb(2) by (simp add: c_string_def)
  have "scan_request pf verb c = Inr (Some (verb, c))"
    using scan_s_first(2) [OF verb] scan_s_blank [of "[]" 63] by (simp add: scan_request_def)
  moreover have "request_line verb name p \<noteq> []" by (simp add: request_line_def)
  moreover have "verb \<noteq> []" using verb(1) by (simp add: is_word_def)
  moreover have "length name < name_size pf" using assms(3,4) by simp
  ultimately show ?thesis
    using scan_request_line [OF verb assms(2,3) _ assms(5), of pf c] assms(1)
    by (simp add: receive_command_from_client_def line single)
qed


text \<open>A request for a room goes all the way, from the bytes of the client to the table and back: in every
  state the daemon reaches by commands, a line with create, a name and an interval makes the client's
  thread enter exactly that room if the name is free and a slot is left, answer SUCCESS, and wait for
  the next line; otherwise it answers ERROR and the rooms stay as they are.\<close>

theorem create_request_served:
  assumes "is_word name" and "length name \<le> 63" and "63 < name_size pf" and "100 < resp_message_size pf"
    and "int32 p" and "h_running t" and "h_recv t = Some (request_line ''create'' name p)"
  shows "let st = run (mon_step pf) (monitor_start pf (nat (cf_max_rooms cfg) + extra) Normal cfg t0) es;
       ok = (lookup_i st name = None \<and> g_room_count st < int (max_slots st))
   in \<exists>st' ls.
        client_handler_thread pf [t] sl st =
          Inr (client_log ''Client connected: '' sl # map (case_prod Logged) ls @
                 [Sent_Bytes ((if ok then ''SUCCESS: '' @ room_quoted ''Room '' name '' created''
                               else ''ERROR: '' @ room_quoted ''Failed to create room '' name []) @ [NL])],
               sl\<lparr>sl_last := h_now t\<rparr>, st', False) \<and>
        lookup_i st' = (if ok then (lookup_i st)(name \<mapsto> new_info pf name (real_interval st p, h_now t))
                        else lookup_i st)"
proof -
  define st where "st = run (mon_step pf) (monitor_start pf (nat (cf_max_rooms cfg) + extra) Normal cfg t0) es"
  define ok where "ok \<longleftrightarrow> lookup_i st name = None \<and> g_room_count st < int (max_slots st)"
  define c where "c = (h_stack t)\<lparr>rc_name := name, rc_param1 := p, rc_time := h_now t\<rparr>"
  define resp where "resp = outcome_response pf (h_now t) (if ok then 0 else -1)
      (room_quoted ''Room '' name '' created'') (room_quoted ''Failed to create room '' name [])"
  have inv: "monitor_inv pf st" unfolding st_def by (rule mo.inv_reached)
  have name: "take (name_size pf) name = name" using assms(2,3) by simp
  have c: "rc_name c = name" "rc_param1 c = p" by (simp_all add: c_def)
  have "receive_command_from_client pf (h_now t) (h_recv t) (h_stack t) =
      Inr (0, c\<lparr>rc_type := CMD_CREATE_ROOM\<rparr>)"
    using request_line_read [of "''create''" CMD_CREATE_ROOM, OF _ assms(1-3,5), of "h_now t" "h_stack t"]
    by (simp add: assms(7) cmd_word_def c_def)
  moreover obtain st' ls where st': "process_command pf (h_now t) (h_thread_ok t) (h_opens t)
      (Some (c\<lparr>rc_type := CMD_CREATE_ROOM\<rparr>)) st = Inr (0, Some resp, st', [], ls)"
    "lookup_i st' = (if ok then (lookup_i st)(name \<mapsto> new_info pf name (real_interval st p, h_now t)) else lookup_i st)"
    using create_exact [OF inv, where c = c and now = "h_now t" and thread_ok = "h_thread_ok t" and opens = "h_opens t"]
    unfolding c(1,2) name Let_def ok_def [symmetric] resp_def [symmetric] by blast
  moreover obtain r where "send_response_to_client (h_sent t) resp = Inr
      ((if ok then ''SUCCESS: '' @ room_quoted ''Room '' name '' created''
        else ''ERROR: '' @ room_quoted ''Failed to create room '' name []) @ [NL], r)"
  proof -
    have "rs_message resp = (if ok then room_quoted ''Room '' name '' created'' else room_quoted ''Failed to create room '' name [])"
      using assms(2,4) by (auto simp: resp_def outcome_response_def respond_def room_quoted_def snprintf_fits)
    moreover have "rs_data resp = []" "status_word (rs_type resp) = (if ok then ''SUCCESS'' else ''ERROR'')"
      by (simp_all add: resp_def outcome_response_def respond_def status_word_def)
    ultimately show thesis
      using response_sent_whole [of resp "h_sent t"] assms(2) that by (auto simp: room_quoted_def split: if_splits)
  qed
  ultimately have "client_handler_thread pf [t] sl st =
      Inr (client_log ''Client connected: '' sl # map (case_prod Logged) ls @
             [Sent_Bytes ((if ok then ''SUCCESS: '' @ room_quoted ''Room '' name '' created''
                           else ''ERROR: '' @ room_quoted ''Failed to create room '' name []) @ [NL])],
           sl\<lparr>sl_last := h_now t\<rparr>, st', False)"
    using assms(6) by (simp add: client_handler_thread_def)
  then show ?thesis using st'(2) unfolding Let_def st_def [symmetric] ok_def [symmetric] by blast
qed

section \<open>Witnesses\<close>

definition example_response :: response_i where
  "example_response = \<lparr>rs_type = RESP_SUCCESS, rs_message = ''Active rooms'', rs_data = ''a (stopped), '', rs_time = 0\<rparr>"

theorem response_sent_whole_witness:
  "\<exists>r. send_response_to_client 0 example_response =
     Inr (status_word (rs_type example_response) @ '': '' @ rs_message example_response @
          (if rs_data example_response = [] then [] else [NL] @ ''Data: '' @ rs_data example_response) @ [NL], r)"
  by (rule response_sent_whole) (simp add: example_response_def status_word_def)

definition example_normal :: "string monitor" where
  "example_normal = monitor_start text_platform 4 Normal example_config 0"

definition example_client :: handler_turn where
  "example_client = \<lparr>h_running = True, h_recv = Some (request_line ''create'' ''web'' 5), h_stack = list_request,
     h_now = 9, h_thread_ok = True, h_opens = True, h_sent = 0\<rparr>"

theorem create_request_served_witness:
  "\<exists>st' ls. client_handler_thread text_platform [example_client] zero_slot example_normal =
       Inr (client_log ''Client connected: '' zero_slot # map (case_prod Logged) ls @
              [Sent_Bytes ((''SUCCESS: '' @ room_quoted ''Room '' ''web'' '' created'') @ [NL])],
            zero_slot\<lparr>sl_last := 9\<rparr>, st', False) \<and>
     lookup_i st' = [''web'' \<mapsto> new_info text_platform ''web'' (5, 9)]"
proof -
  have word: "is_word ''web''" by (simp add: is_word_def isspace_c_def)
  have start: "example_normal = run (mon_step text_platform)
      (monitor_start text_platform (nat (cf_max_rooms example_config) + 0) Normal example_config 0) []"
    by (simp add: example_normal_def example_config_def)
  have none: "lookup_i example_normal n = None" for n
    by (simp add: lookup_i_None is_room_def) (simp add: example_normal_def monitor_start_def zero_info_def max_slots_def example_config_def)
  have count: "g_room_count example_normal < int (max_slots example_normal)"
    by (simp add: example_normal_def monitor_start_def max_slots_def example_config_def)
  have "lookup_i example_normal = (\<lambda>_. None)" using none by blast
  then show ?thesis
    using create_request_served [OF word, of text_platform 5 example_client example_config 0 0 "[]" zero_slot, folded start] count
    by (simp add: example_client_def text_platform_def int32_def real_interval_def)
qed

theorem request_line_read_witness:
  "receive_command_from_client text_platform 9 (Some (request_line ''create'' ''web'' 5)) list_request =
      Inr (0, list_request\<lparr>rc_name := ''web'', rc_param1 := 5, rc_type := CMD_CREATE_ROOM, rc_time := 9\<rparr>) \<and>
    receive_command_from_client text_platform 9 (Some ''create'') list_request =
      Inr (0, list_request\<lparr>rc_type := CMD_CREATE_ROOM, rc_time := 9\<rparr>)"
  by (rule request_line_read)
    (simp_all add: cmd_word_def is_word_def isspace_c_def text_platform_def int32_def)

definition example_turn :: "int \<Rightarrow> monitor_turn" where
  "example_turn now = \<lparr>m_active = True, m_files = example_proc, m_now = now\<rparr>"


end
