(* ===== verification/MonitorService.thy ===== *)
theory MonitorService
  imports MonitorServer
begin

text \<open>
  The client threads of the integration daemon together, as one service.

  The first part puts the threads side by side: every event is one turn of one client's thread, with
  the request it receives. A thread that waits for ever keeps what it has locked, so the threads that
  come after it find the mutex of the rooms taken. The second part is the service the clients see: a
  list of rooms in the order of their creation, and whether it is still open. The theorem at the end
  says that the two give the same answers.
\<close>

section \<open>The client threads side by side\<close>

datatype client_state = Serving | Hanging | Gone

text \<open>What a turn does to the client: bytes are sent, the thread waits for ever, the thread closes the
  connection and ends, there is no such turn, or the thread leaves the memory of the program.\<close>

datatype reaction = Answers "char list" | Hangs | Leaves | Absent | Crashes

record 'f served =
  sd_mon :: "'f monitor"
  sd_slot :: "nat \<Rightarrow> slot"
  sd_client :: "nat \<Rightarrow> client_state"

text \<open>A thread that waits for itself has the mutex of the rooms or waits for a thread that has it.\<close>

definition thread_turn :: "'f platform \<Rightarrow> 'f served \<Rightarrow> nat \<times> handler_turn \<Rightarrow> reaction \<times> 'f served" where
  "thread_turn pf s = (\<lambda>(i, t).
     if sd_client s i \<noteq> Serving then (Absent, s)
     else case client_loop pf [t] (sd_slot s i) (sd_mon s) of
       Inl Deadlock \<Rightarrow>
         (Hangs, s\<lparr>sd_mon := held (sd_mon s) 1, sd_client := (sd_client s)(i := Hanging)\<rparr>)
     | Inl _ \<Rightarrow> (Crashes, s\<lparr>sd_client := (\<lambda>_. Gone)\<rparr>)
     | Inr (out, sl, st, ended) \<Rightarrow>
         (case filter (\<lambda>x. case x of Sent_Bytes _ \<Rightarrow> True | _ \<Rightarrow> False) out of
            Sent_Bytes bytes # _ \<Rightarrow> Answers bytes | _ \<Rightarrow> Leaves,
          s\<lparr>sd_mon := st, sd_slot := (sd_slot s)(i := sl),
            sd_client := (sd_client s)(i := if ended then Gone else Serving)\<rparr>))"

definition served_start :: "'f monitor \<Rightarrow> (nat \<Rightarrow> slot) \<Rightarrow> 'f served" where
  "served_start st slots = \<lparr>sd_mon = st, sd_slot = slots, sd_client = \<lambda>_. Serving\<rparr>"

section \<open>The service\<close>

text \<open>A room is its name, its interval and the time it was created.\<close>

record service =
  sv_rooms :: "(string \<times> int \<times> int) list"
  sv_count :: "64 word"
  sv_shut :: bool
  sv_client :: "nat \<Rightarrow> client_state"

definition service_start :: service where
  "service_start = \<lparr>sv_rooms = [], sv_count = 0, sv_shut = False, sv_client = \<lambda>_. Serving\<rparr>"

definition reply :: "'f platform \<Rightarrow> bool \<Rightarrow> string \<Rightarrow> string \<Rightarrow> char list" where
  "reply pf ok message data = (if ok then ''SUCCESS'' else ''ERROR'') @ '': '' @
     snprintf_c [] (resp_message_size pf) message @
     (if data = [] then [] else [NL] @ ''Data: '' @ data) @ [NL]"

definition room_listing :: "'f platform \<Rightarrow> (string \<times> int \<times> int) list \<Rightarrow> string" where
  "room_listing pf rs = take (resp_data_size pf) (take (message_size pf - 1)
     (concat (map (\<lambda>(name, _). snprintf_c [] 128 (name @ '' (stopped), '')) rs)))"

definition status_line :: "'f platform \<Rightarrow> int \<Rightarrow> service \<Rightarrow> string" where
  "status_line pf uptime v = snprintf_c [] (resp_data_size pf) (''Uptime: '' @ show_int uptime @
     '' seconds, Rooms: '' @ show_int (int (length (sv_rooms v))) @ '', Commands processed: '' @
     show_nat (unat (sv_count v)))"

text \<open>Creating a room and listing the rooms work until somebody asks to start, stop, delete or show a
  room; from then on only the status is answered. \<open>None\<close> is a request that gets no answer.\<close>

definition serve_command ::
  "'f platform \<Rightarrow> config \<Rightarrow> int \<Rightarrow> int \<Rightarrow> room_command \<Rightarrow> service \<Rightarrow> char list option \<times> service" where
  "serve_command pf cfg t0 now c v =
     (let counted = v\<lparr>sv_count := sv_count v + 1\<rparr>
      in case rc_type c of
           CMD_CREATE_ROOM \<Rightarrow>
             if sv_shut v then (None, v)
             else
               (let name = rc_name c; key = take (name_size pf) name;
                    ok = (key \<notin> fst ` set (sv_rooms v) \<and> length (sv_rooms v) < nat (cf_max_rooms cfg));
                    room = (key, if rc_param1 c > 0 then rc_param1 c else cf_interval cfg, now)
                in if ok then (Some (reply pf True (room_quoted ''Room '' name '' created'') []),
                               counted\<lparr>sv_rooms := sv_rooms v @ [room]\<rparr>)
                   else (Some (reply pf False (room_quoted ''Failed to create room '' name []) []), counted))
         | CMD_LIST_ROOMS \<Rightarrow>
             if sv_shut v then (None, v)
             else (Some (reply pf True ''Active rooms'' (room_listing pf (sv_rooms v))), counted)
         | CMD_STATUS \<Rightarrow> (Some (reply pf True ''Daemon status'' (status_line pf (now - t0) v)), counted)
         | CMD_OTHER _ \<Rightarrow> (Some (reply pf False ''Invalid command'' []), counted)
         | _ \<Rightarrow> (None, v\<lparr>sv_shut := True\<rparr>))"

text \<open>The command in what a client sends; \<open>None\<close> if there is none.\<close>

definition request :: "'f platform \<Rightarrow> handler_turn \<Rightarrow> room_command option" where
  "request pf t =
     (if \<not> h_running t then None
      else case receive_command_from_client pf (h_now t) (h_recv t) (h_stack t) of
        Inl _ \<Rightarrow> None | Inr (r, c) \<Rightarrow> if r = 0 then Some c else None)"

definition service_turn ::
  "'f platform \<Rightarrow> config \<Rightarrow> int \<Rightarrow> service \<Rightarrow> nat \<times> handler_turn \<Rightarrow> reaction \<times> service" where
  "service_turn pf cfg t0 v = (\<lambda>(i, t).
     if sv_client v i \<noteq> Serving then (Absent, v)
     else case request pf t of
       None \<Rightarrow> (Leaves, v\<lparr>sv_client := (sv_client v)(i := Gone)\<rparr>)
     | Some c \<Rightarrow>
         (case serve_command pf cfg t0 (h_now t) c v of
            (Some bytes, v) \<Rightarrow> (Answers bytes, v)
          | (None, v) \<Rightarrow> (Hangs, v\<lparr>sv_client := (sv_client v)(i := Hanging)\<rparr>)))"

section \<open>The table that a list of rooms stands for\<close>

definition slots_of :: "'f platform \<Rightarrow> nat \<Rightarrow> (string \<times> int \<times> int) list \<Rightarrow> 'f room_info list" where
  "slots_of pf n rs = map (\<lambda>(name, p). new_info pf name p) rs @ replicate (n - length rs) (zero_info pf)"

definition list_ok :: "'f platform \<Rightarrow> nat \<Rightarrow> (string \<times> int \<times> int) list \<Rightarrow> bool" where
  "list_ok pf n rs \<longleftrightarrow> length rs \<le> n \<and> distinct (map fst rs) \<and> (\<forall>r \<in> set rs. length (fst r) \<le> name_size pf)"

definition holds_list :: "'f platform \<Rightarrow> (string \<times> int \<times> int) list \<Rightarrow> 'f monitor \<Rightarrow> bool" where
  "holds_list pf rs st \<longleftrightarrow> max_slots st \<le> length (g_rooms st) \<and> list_ok pf (max_slots st) rs \<and>
     take (max_slots st) (g_rooms st) = slots_of pf (max_slots st) rs \<and>
     g_room_count st = int (length rs)"

lemma slot_of:
  assumes "holds_list pf rs st" and "i < max_slots st"
  shows "g_rooms st ! i = (if i < length rs then new_info pf (fst (rs ! i)) (snd (rs ! i)) else zero_info pf)"
proof -
  have "g_rooms st ! i = slots_of pf (max_slots st) rs ! i"
    using assms by (metis holds_list_def nth_take)
  then show ?thesis using assms by (simp add: slots_of_def nth_append holds_list_def list_ok_def split: prod.split)
qed

lemma new_info_fields [simp]:
  "ri_name (new_info pf name p) = name" "ri_state (new_info pf name p) = ROOM_STATE_CREATED"
  "ri_state (zero_info pf) = ROOM_STATE_INACTIVE"
  by (simp_all add: new_info_def zero_info_def split: prod.split)

lemma is_room_list:
  assumes "holds_list pf rs st"
  shows "is_room st name i \<longleftrightarrow> i < length rs \<and> fst (rs ! i) = name"
  using slot_of [OF assms, of i] assms by (auto simp: is_room_def holds_list_def list_ok_def split: if_splits)

lemma holds_list_table: "holds_list pf rs st \<Longrightarrow> table_ok pf st"
proof (rule table_okI)
  assume l: "holds_list pf rs st"
  then show "max_slots st \<le> length (g_rooms st)" by (simp add: holds_list_def)
  show "slot_ok pf (g_rooms st ! i)" if "i < max_slots st" for i
    using slot_of [OF l that] l by (auto simp: slot_ok_def holds_list_def list_ok_def zero_info_def)
  show "i = j" if "is_room st name i" "is_room st name j" for name i j
    using that l nth_eq_iff_index_eq [of "map fst rs" i j]
    by (auto simp: is_room_list [OF l] holds_list_def list_ok_def)
qed

lemma lookup_list: "holds_list pf rs st \<Longrightarrow> lookup_i st name = None \<longleftrightarrow> name \<notin> fst ` set rs"
  by (force simp: lookup_i_None is_room_list in_set_conv_nth image_iff)

lemma live_slots_list: "holds_list pf rs st \<Longrightarrow> live_slots st = map (\<lambda>(name, p). new_info pf name p) rs"
  by (auto simp: live_slots_def holds_list_def slots_of_def filter_map comp_def case_prod_beta intro!: filter_True)

lemma find_first: "k < n \<Longrightarrow> P k \<Longrightarrow> (\<And>j. j < k \<Longrightarrow> \<not> P j) \<Longrightarrow> find P [0..<n] = Some k"
  by (auto simp: find_Some_iff intro!: exI [of _ k])

lemma free_slot_list:
  assumes "holds_list pf rs st"
  shows "free_slot st = (if length rs < max_slots st then Some (length rs) else None)"
  using slot_of [OF assms] assms
  by (auto simp: free_slot_def find_None_iff holds_list_def list_ok_def intro!: find_first)

text \<open>A new room goes to the end of the list.\<close>

lemma fill_slot_list:
  fixes pf :: "'f platform"
  defines "k \<equiv> \<lambda>name. take (name_size pf) name"
  assumes "holds_list pf rs st" and "length rs < max_slots st" and "k name \<notin> fst ` set rs"
  shows "holds_list pf (rs @ [(k name, real_interval st iv, now)]) (fill_slot pf name iv now (length rs) st)"
proof -
  let ?p = "(real_interval st iv, now)" and ?st = "fill_slot pf name iv now (length rs) st" and ?n = "max_slots st"
  have st: "?n \<le> length (g_rooms st)" "list_ok pf ?n rs" "take ?n (g_rooms st) = slots_of pf ?n rs"
    "g_room_count st = int (length rs)"
    using assms(2) by (simp_all add: holds_list_def)
  have free: "ri_state (g_rooms st ! length rs) = ROOM_STATE_INACTIVE"
    using slot_of [OF assms(2,3)] by simp
  have "replaces st (length rs) (new_info pf (k name) ?p) ?st"
    unfolding k_def by (rule fill_slot_replaces [OF holds_list_table [OF assms(2)] assms(3) free])
  then have rooms: "g_rooms ?st = (g_rooms st)[length rs := new_info pf (k name) ?p]" and max: "max_slots ?st = ?n"
    by (auto simp: replaces_def replaces_max)
  obtain m where m: "?n - length rs = Suc m" using assms(3) by (cases "?n - length rs") auto
  have "take ?n (g_rooms ?st) = (slots_of pf ?n rs)[length rs := new_info pf (k name) ?p]"
    by (simp add: rooms take_update_swap st(3))
  also have "\<dots> = slots_of pf ?n (rs @ [(k name, ?p)])"
  proof -
    have "?n - Suc (length rs) = m" using m by simp
    then show ?thesis by (simp add: slots_of_def m list_update_append)
  qed
  finally have "take ?n (g_rooms ?st) = slots_of pf ?n (rs @ [(k name, ?p)])" .
  moreover have "list_ok pf ?n (rs @ [(k name, ?p)])"
    using st(2) assms(3,4) by (auto simp: list_ok_def k_def)
  ultimately show ?thesis
    using st(1,4) by (simp add: holds_list_def max rooms) (simp add: fill_slot_room_count st(4))
qed

section \<open>One command\<close>

text \<open>The arrays of the missing header: a name of a request fits, and a response fits the buffer it is
  sent from.\<close>

definition platform_ok :: "'f platform \<Rightarrow> bool" where
  "platform_ok pf \<longleftrightarrow> 63 < name_size pf \<and> 0 < message_size pf \<and>
     resp_message_size pf + resp_data_size pf < 2030"

definition serves_list :: "'f platform \<Rightarrow> config \<Rightarrow> int \<Rightarrow> service \<Rightarrow> 'f monitor \<Rightarrow> bool" where
  "serves_list pf cfg t0 v st \<longleftrightarrow> holds_list pf (sv_rooms v) st \<and> g_config st = cfg \<and> g_start st = t0 \<and>
     g_commands st = sv_count v \<and> g_rooms_mutex st = \<lparr>kind = Normal, depth = (if sv_shut v then 1 else 0)\<rparr>"

lemma snprintf_most: "length (snprintf_c [] n text) \<le> n"
  by (cases "n = 0") (simp_all add: snprintf_c_def)

lemma reply_sent:
  assumes "platform_ok pf" and "length d \<le> resp_data_size pf"
  shows "\<exists>r. send_response_to_client sent (respond pf now ty m d) = Inr (reply pf (ty = RESP_SUCCESS) m d, r)"
proof -
  let ?resp = "respond pf now ty m d"
  have parts: "rs_type ?resp = ty" "rs_message ?resp = snprintf_c [] (resp_message_size pf) m" "rs_data ?resp = d"
    by (simp_all add: respond_def)
  have "length (status_word ty) \<le> 7" by (simp add: status_word_def)
  moreover have "length (snprintf_c [] (resp_message_size pf) m) \<le> resp_message_size pf"
    by (rule snprintf_most)
  ultimately have "length (status_word (rs_type ?resp)) + length (rs_message ?resp) + length (rs_data ?resp) < 2037"
    using assms by (simp add: parts platform_ok_def)
  from response_sent_whole [OF this, of sent] show ?thesis
    unfolding parts reply_def status_word_def .
qed

lemma list_fields:
  assumes "g_rooms st' = g_rooms st" and "g_config st' = g_config st" and "g_room_count st' = g_room_count st"
  shows "holds_list pf rs st' = holds_list pf rs st"
  using assms by (simp add: holds_list_def max_slots_def)

lemma serves_list_counted:
  assumes "serves_list pf cfg t0 v st"
  shows "serves_list pf cfg t0 (v\<lparr>sv_count := sv_count v + 1\<rparr>) (counted st)"
  using assms list_fields [of "counted st" st] by (simp add: serves_list_def counted_def)

lemma serves_list_held:
  assumes "serves_list pf cfg t0 v st"
  shows "serves_list pf cfg t0 (v\<lparr>sv_shut := True\<rparr>) (held st 1)"
  using assms list_fields [of "held st 1" st] by (simp add: serves_list_def held_def)

lemma serves_list_open:
  assumes "serves_list pf cfg t0 v st" and "\<not> sv_shut v"
  shows "free_mutex Normal st" and "table_ok pf st"
  using assms holds_list_table by (auto simp: serves_list_def free_mutex_def)

lemma shut_lock:
  assumes "serves_list pf cfg t0 v st" and "sv_shut v"
  shows "g_lock st = Inl Deadlock" and "held st 1 = st" and "v\<lparr>sv_shut := True\<rparr> = v"
  using assms by (simp_all add: serves_list_def g_lock_def mutex_lock_def held_def)

text \<open>Create, list, status and unknown commands while the service is open.\<close>

lemma create_served:
  assumes "platform_ok pf" and "serves_list pf cfg t0 v st" and "\<not> sv_shut v" and "rc_type c = CMD_CREATE_ROOM"
  shows "\<exists>resp st' ls r bytes v'. process_command pf now thread_ok opens (Some c) st = Inr (0, Some resp, st', [], ls) \<and>
     serve_command pf cfg t0 now c v = (Some bytes, v') \<and> serves_list pf cfg t0 v' st' \<and>
     send_response_to_client sent resp = Inr (bytes, r)"
proof -
  let ?k = "take (name_size pf) (rc_name c)" and ?rs = "sv_rooms v"
  have l: "holds_list pf ?rs st" "max_slots st = nat (cf_max_rooms cfg)" "cf_interval (g_config st) = cf_interval cfg"
    using assms(2) by (simp_all add: serves_list_def max_slots_def)
  note eq = create_room_eq [OF serves_list_open [OF assms(2,3)], of "rc_name c" "rc_param1 c" now]
    lookup_list [OF l(1), of ?k] free_slot_list [OF l(1)]
  define ok where "ok \<longleftrightarrow> ?k \<notin> fst ` set ?rs \<and> length ?rs < max_slots st"
  define st1 where "st1 = (if ok then fill_slot pf (rc_name c) (rc_param1 c) now (length ?rs) st else st)"
  define v1 where "v1 = (if ok then v\<lparr>sv_rooms := ?rs @ [(?k, real_interval st (rc_param1 c), now)]\<rparr> else v)"
  have "serves_list pf cfg t0 v1 st1"
  proof (cases ok)
    case True
    then have "holds_list pf (?rs @ [(?k, real_interval st (rc_param1 c), now)]) st1"
      using fill_slot_list [OF l(1)] by (simp add: st1_def ok_def)
    then show ?thesis
      using assms(2) True by (simp add: serves_list_def v1_def st1_def fill_slot_def set_info_def)
  qed (use assms(2) in \<open>simp add: v1_def st1_def\<close>)
  then have rel: "serves_list pf cfg t0 (v1\<lparr>sv_count := sv_count v1 + 1\<rparr>) (counted st1)"
    by (rule serves_list_counted)
  define resp where "resp = respond pf now (if ok then RESP_SUCCESS else RESP_ERROR)
    (if ok then room_quoted ''Room '' (rc_name c) '' created'' else room_quoted ''Failed to create room '' (rc_name c) []) []"
  have proc: "\<exists>ls. process_command pf now thread_ok opens (Some c) st = Inr (0, Some resp, counted st1, [], ls)"
    using eq by (auto simp: process_command_def assms(4) Let_def outcome_response_def resp_def ok_def st1_def)
  have serve: "serve_command pf cfg t0 now c v = (Some (reply pf ok (if ok then room_quoted ''Room '' (rc_name c) '' created''
      else room_quoted ''Failed to create room '' (rc_name c) []) []), v1\<lparr>sv_count := sv_count v1 + 1\<rparr>)"
    using assms(3,4) l(2,3) by (simp add: serve_command_def Let_def ok_def v1_def real_interval_def)
  have kind: "((if ok then RESP_SUCCESS else RESP_ERROR) = RESP_SUCCESS) = ok" by simp
  have "\<exists>r. send_response_to_client sent resp = Inr (reply pf ok (if ok then room_quoted ''Room '' (rc_name c) '' created''
      else room_quoted ''Failed to create room '' (rc_name c) []) [], r)"
    using reply_sent [OF assms(1), of "[]" sent now "if ok then RESP_SUCCESS else RESP_ERROR", unfolded kind]
    by (simp add: resp_def)
  then show ?thesis using proc serve rel by blast
qed

lemma list_served:
  assumes "platform_ok pf" and "serves_list pf cfg t0 v st" and "\<not> sv_shut v" and "rc_type c = CMD_LIST_ROOMS"
  shows "\<exists>resp st' ls r bytes v'. process_command pf now thread_ok opens (Some c) st = Inr (0, Some resp, st', [], ls) \<and>
     serve_command pf cfg t0 now c v = (Some bytes, v') \<and> serves_list pf cfg t0 v' st' \<and>
     send_response_to_client sent resp = Inr (bytes, r)"
proof -
  have "holds_list pf (sv_rooms v) st" using assms(2) by (simp add: serves_list_def)
  then have live: "map room_item (live_slots st) =
      map (\<lambda>(name, _). snprintf_c [] 128 (name @ '' (stopped), '')) (sv_rooms v)"
    by (auto simp: live_slots_list room_item_def comp_def case_prod_beta)
  have "list_rooms_i pf now st = Inr (respond pf now RESP_SUCCESS ''Active rooms'' (room_listing pf (sv_rooms v)), st)"
    using list_rooms_i_eq [OF serves_list_open [OF assms(2,3)]] assms(1)
    by (simp add: live room_listing_def platform_ok_def)
  then have "process_command pf now thread_ok opens (Some c) st =
      Inr (0, Some (respond pf now RESP_SUCCESS ''Active rooms'' (room_listing pf (sv_rooms v))), counted st, [], [])"
    by (simp add: process_command_def assms(4) Let_def)
  moreover have "serve_command pf cfg t0 now c v =
      (Some (reply pf True ''Active rooms'' (room_listing pf (sv_rooms v))), v\<lparr>sv_count := sv_count v + 1\<rparr>)"
    using assms(3,4) by (simp add: serve_command_def Let_def)
  moreover have "length (room_listing pf (sv_rooms v)) \<le> resp_data_size pf" by (simp add: room_listing_def)
  ultimately show ?thesis
    using reply_sent [OF assms(1), of _ sent now RESP_SUCCESS "''Active rooms''"] serves_list_counted [OF assms(2)]
    by fastforce
qed

lemma status_served:
  assumes "platform_ok pf" and "serves_list pf cfg t0 v st" and "rc_type c = CMD_STATUS \<or> (\<exists>n. rc_type c = CMD_OTHER n)"
  shows "\<exists>resp st' ls r bytes v'. process_command pf now thread_ok opens (Some c) st = Inr (0, Some resp, st', [], ls) \<and>
     serve_command pf cfg t0 now c v = (Some bytes, v') \<and> serves_list pf cfg t0 v' st' \<and>
     send_response_to_client sent resp = Inr (bytes, r)"
proof -
  have "snprintf_c [] (resp_data_size pf) (status_text now st) = status_line pf (now - t0) v"
    using assms(2) by (simp add: status_text_def status_line_def serves_list_def holds_list_def)
  moreover have "length (status_line pf (now - t0) v) \<le> resp_data_size pf"
    by (simp add: status_line_def snprintf_most)
  ultimately show ?thesis
    using assms(3) reply_sent [OF assms(1), of "status_line pf (now - t0) v" sent now RESP_SUCCESS "''Daemon status''"]
      reply_sent [OF assms(1), of "[]" sent now RESP_INVALID_COMMAND "''Invalid command''"] serves_list_counted [OF assms(2)]
    by (auto simp: process_command_def serve_command_def Let_def)
qed

text \<open>All other commands, and all that need the lock once the service is shut, are not answered.\<close>

lemma serve_command_None:
  "fst (serve_command pf cfg t0 now c v) = None \<longleftrightarrow>
     rc_type c \<in> {CMD_START_ROOM, CMD_STOP_ROOM, CMD_DELETE_ROOM, CMD_SHOW_ROOM} \<or>
     sv_shut v \<and> rc_type c \<in> {CMD_CREATE_ROOM, CMD_LIST_ROOMS}"
  by (cases "rc_type c") (simp_all add: serve_command_def Let_def)

lemma hanging_served:
  assumes "serves_list pf cfg t0 v st" and "fst (serve_command pf cfg t0 now c v) = None"
  shows "process_command pf now thread_ok opens (Some c) st = Inl Deadlock"
    and "serves_list pf cfg t0 (snd (serve_command pf cfg t0 now c v)) (held st 1)"
proof -
  show "process_command pf now thread_ok opens (Some c) st = Inl Deadlock"
  proof (cases "sv_shut v")
    case True
    then show ?thesis
      using assms(2) shut_lock(1) [OF assms(1) True] unfolding serve_command_None
      by (auto simp: process_command_def Let_def create_room_i_def start_room_def stop_room_def delete_room_i_def
          show_room_i_def list_rooms_i_def)
  next
    case False
    then show ?thesis
      using assms(2) relock_hangs [OF serves_list_open(1) [OF assms(1) False]] unfolding serve_command_None
      by (auto simp: process_command_def Let_def)
  qed
  have "snd (serve_command pf cfg t0 now c v) = v\<lparr>sv_shut := True\<rparr>"
    using assms(2) by (cases "rc_type c") (auto simp: serve_command_def Let_def split: if_splits)
  then show "serves_list pf cfg t0 (snd (serve_command pf cfg t0 now c v)) (held st 1)"
    using serves_list_held [OF assms(1)] by simp
qed

lemma answered_served:
  assumes "platform_ok pf" and "serves_list pf cfg t0 v st" and "fst (serve_command pf cfg t0 now c v) \<noteq> None"
  shows "\<exists>resp st' ls r bytes v'. process_command pf now thread_ok opens (Some c) st = Inr (0, Some resp, st', [], ls) \<and>
     serve_command pf cfg t0 now c v = (Some bytes, v') \<and> serves_list pf cfg t0 v' st' \<and>
     send_response_to_client sent resp = Inr (bytes, r)"
  using assms(3) create_served [OF assms(1,2)] list_served [OF assms(1,2)] status_served [OF assms(1,2)]
  unfolding serve_command_None by (cases "rc_type c") simp_all

section \<open>One turn\<close>

lemma receive_returns:
  assumes "63 < name_size pf"
  shows "\<exists>r c'. receive_command_from_client pf now got c = Inr (r, c')"
proof -
  have "\<exists>x. scan_request pf b c = Inr x" for b
  proof (cases "scan_s 63 b")
    case (Some x)
    obtain verb u where x: "x = (verb, u)" by (cases x)
    have "\<not> name_size pf \<le> length name" if "scan_s 63 u = Some (name, u')" for name u'
      using scan_s_bound [OF that] assms by simp
    then show ?thesis by (auto simp: scan_request_def Some x Let_def split: option.splits)
  qed (simp add: scan_request_def)
  then obtain x where "scan_request pf (cstr (take 1023 (the got))) c = Inr x" by blast
  then show ?thesis
    by (cases got) (auto simp: receive_command_from_client_def split: option.splits)
qed

lemma one_turn:
  assumes "63 < name_size pf"
  shows "client_loop pf [t] sl st =
     (case request pf t of
        None \<Rightarrow> Inr ([], sl, st, True)
      | Some c \<Rightarrow>
          bind_outcome (process_command pf (h_now t) (h_thread_ok t) (h_opens t) (Some c) st) (\<lambda>(_, resp, st, calls, ls).
          bind_outcome (send_response_to_client (h_sent t) (the resp)) (\<lambda>(bytes, _).
            Inr (map Room_Call calls @ map (case_prod Logged) ls @ [Sent_Bytes bytes], sl\<lparr>sl_last := h_now t\<rparr>, st, False))))"
proof -
  obtain r c where "receive_command_from_client pf (h_now t) (h_recv t) (h_stack t) = Inr (r, c)"
    using receive_returns [OF assms] by blast
  then show ?thesis by (simp add: request_def)
qed

definition service_rel :: "'f platform \<Rightarrow> config \<Rightarrow> int \<Rightarrow> service \<Rightarrow> 'f served \<Rightarrow> bool" where
  "service_rel pf cfg t0 v s \<longleftrightarrow> platform_ok pf \<and> serves_list pf cfg t0 v (sd_mon s) \<and> sd_client s = sv_client v"

lemma serve_command_client: "sv_client (snd (serve_command pf cfg t0 now c v)) = sv_client v"
  by (cases "rc_type c") (simp_all add: serve_command_def Let_def)

lemma serves_list_client: "serves_list pf cfg t0 (v\<lparr>sv_client := f\<rparr>) st = serves_list pf cfg t0 v st"
  by (simp add: serves_list_def)

lemma turn_simulated:
  assumes "service_rel pf cfg t0 v s"
  shows "fst (thread_turn pf s e) = fst (service_turn pf cfg t0 v e) \<and>
     service_rel pf cfg t0 (snd (service_turn pf cfg t0 v e)) (snd (thread_turn pf s e))"
proof -
  obtain i t where e: "e = (i, t)" by (cases e)
  have rel: "platform_ok pf" "63 < name_size pf" "serves_list pf cfg t0 v (sd_mon s)" "sd_client s = sv_client v"
    using assms by (simp_all add: service_rel_def platform_ok_def)
  note turn = one_turn [OF rel(2), of t "sd_slot s i" "sd_mon s"]
  note defs = thread_turn_def service_turn_def e rel(4) turn service_rel_def serves_list_client
  show ?thesis
  proof (cases "sv_client v i = Serving")
    case serving: True
    show ?thesis
    proof (cases "request pf t")
      case None
      then show ?thesis using rel serving by (simp add: defs del: client_loop.simps)
    next
      case (Some c)
      let ?served = "serve_command pf cfg t0 (h_now t) c v"
      have client: "sv_client (snd ?served) = sv_client v" by (rule serve_command_client)
      show ?thesis
      proof (cases "fst ?served")
        case None
        then obtain v' where v': "?served = (None, v')" by (cases ?served) simp
        note hang = hanging_served [OF rel(3) None]
        show ?thesis using rel serving hang client by (simp add: defs Some v' del: client_loop.simps)
      next
        case (Some bytes)
        then obtain resp st' ls r bytes v' where
          "process_command pf (h_now t) (h_thread_ok t) (h_opens t) (Some c) (sd_mon s) = Inr (0, Some resp, st', [], ls)"
          "?served = (Some bytes, v')" "serves_list pf cfg t0 v' st'"
          "send_response_to_client (h_sent t) resp = Inr (bytes, r)"
          using answered_served [OF rel(1,3), of "h_now t" c] by blast
        then show ?thesis
          using rel serving client \<open>request pf t = Some c\<close> by (simp add: defs case_prod_beta fun_upd_idem del: client_loop.simps)
      qed
    qed
  qed (use assms in \<open>simp add: defs del: client_loop.simps\<close>)
qed

interpretation sv: simulation "service_turn pf cfg t0" "thread_turn pf" "service_rel pf cfg t0"
  for pf :: "'f platform" and cfg t0
  using turn_simulated by unfold_locales blast+

lemma monitor_start_service:
  assumes "platform_ok pf"
  shows "service_rel pf cfg t0 service_start
     (served_start (monitor_start pf (nat (cf_max_rooms cfg) + extra) Normal cfg t0) slots)"
  using assms by (simp add: service_rel_def served_start_def service_start_def serves_list_def monitor_start_def
      holds_list_def list_ok_def slots_of_def max_slots_def)

section \<open>The service over time\<close>

lemma cmd_word_known: "cmd_word w = Some ty \<Longrightarrow> ty \<noteq> CMD_OTHER n"
  by (auto simp: cmd_word_def split: if_splits)

lemma received_type:
  assumes "receive_command_from_client pf now got c0 = Inr (0, c)"
  shows "rc_type c \<noteq> CMD_OTHER n"
proof -
  obtain scanned where s: "scan_request pf (cstr (take 1023 (the got))) c0 = Inr scanned"
    "(case scanned of None \<Rightarrow> (-1, c0) | Some (verb, c) \<Rightarrow>
        (case cmd_word verb of None \<Rightarrow> (-1, c) | Some ty \<Rightarrow> (0, c\<lparr>rc_type := ty, rc_time := now\<rparr>))) = (0 :: int, c)"
    using assms by (cases got) (auto simp: receive_command_from_client_def bind_outcome_Inr split: if_splits)
  then show ?thesis using cmd_word_known [of _ _ n] by (cases scanned) (auto split: option.splits)
qed

lemma request_type:
  assumes "request pf t = Some c"
  shows "rc_type c \<noteq> CMD_OTHER n"
  using assms by (intro received_type) (auto simp: request_def split: if_splits sum.splits)

lemma serve_command_shut:
  assumes "sv_shut v"
  shows "sv_shut (snd (serve_command pf cfg t0 now c v))"
    and "sv_rooms (snd (serve_command pf cfg t0 now c v)) = sv_rooms v"
    and "rc_type c \<noteq> CMD_STATUS \<Longrightarrow> (\<forall>n. rc_type c \<noteq> CMD_OTHER n) \<Longrightarrow> fst (serve_command pf cfg t0 now c v) = None"
  using assms by (cases "rc_type c"; simp add: serve_command_def Let_def)+

lemma service_turn_shut:
  assumes "sv_shut v"
  shows "sv_shut (snd (service_turn pf cfg t0 v e))" and "sv_rooms (snd (service_turn pf cfg t0 v e)) = sv_rooms v"
    and "fst (service_turn pf cfg t0 v e) = Answers bytes \<Longrightarrow> \<exists>c. request pf (snd e) = Some c \<and> rc_type c = CMD_STATUS"
proof -
  obtain i t where e: "e = (i, t)" by (cases e)
  note served = serve_command_shut [OF assms, where pf = pf and cfg = cfg and ?t0.0 = t0 and now = "h_now t"]
  show "sv_shut (snd (service_turn pf cfg t0 v e))" "sv_rooms (snd (service_turn pf cfg t0 v e)) = sv_rooms v"
    using served(1,2) assms by (auto simp: service_turn_def e split: option.split prod.split) (metis snd_conv)+
  show "\<exists>c. request pf (snd e) = Some c \<and> rc_type c = CMD_STATUS"
    if "fst (service_turn pf cfg t0 v e) = Answers bytes"
    using that served(3) request_type [of pf t]
    by (auto simp: service_turn_def e split: if_splits option.splits prod.splits) (metis fst_conv option.distinct(1))
qed

lemma shut_for_ever:
  assumes "sv_shut v"
  shows "sv_shut (state_after (service_turn pf cfg t0) v es)"
    and "sv_rooms (state_after (service_turn pf cfg t0) v es) = sv_rooms v"
  using assms by (induction es arbitrary: v) (simp_all add: service_turn_shut)

lemma live_slots_service:
  assumes "service_rel pf cfg t0 v s"
  shows "live_slots (sd_mon s) = map (\<lambda>(name, p). new_info pf name p) (sv_rooms v)"
  using assms live_slots_list by (auto simp: service_rel_def serves_list_def)

text \<open>What holds of the rooms at any time, with the mutex free or held by a thread that waits for ever.\<close>

definition monitor_ok :: "'f platform \<Rightarrow> 'f monitor \<Rightarrow> bool" where
  "monitor_ok pf st \<longleftrightarrow> monitor_inv pf (held st 0)"

lemma held_twice [simp]: "held (held st n) m = held st m"
  by (simp add: held_def)

lemma monitor_ok_held [simp]: "monitor_ok pf (held st n) = monitor_ok pf st"
  by (simp add: monitor_ok_def)

lemma monitor_ok_free:
  assumes "monitor_inv pf st"
  shows "monitor_ok pf st"
proof -
  have "held st 0 = st" by (rule held_0 [of Normal]) (use assms in \<open>simp add: monitor_inv_def\<close>)
  then show ?thesis using assms by (simp add: monitor_ok_def)
qed

lemma monitor_ok_cases:
  assumes "monitor_ok pf st"
  shows "monitor_inv pf st \<or> g_lock st = Inl Deadlock"
proof (cases "depth (g_rooms_mutex st) = 0")
  case True
  then have "held st 0 = st" by (cases st) (simp add: held_def)
  then show ?thesis using assms by (simp add: monitor_ok_def)
next
  case False
  then show ?thesis
    using assms by (simp add: monitor_ok_def monitor_inv_def free_mutex_def held_def g_lock_def mutex_lock_def)
qed

lemma monitor_ok_counted: "monitor_ok pf st \<Longrightarrow> monitor_ok pf (counted st)"
proof -
  have "held (counted st) 0 = counted (held st 0)" by (simp add: held_def counted_def)
  then show "monitor_ok pf st \<Longrightarrow> monitor_ok pf (counted st)" by (simp add: monitor_ok_def)
qed

lemma monitor_ok_command:
  assumes "monitor_ok pf st" and "process_command pf now tk op c st = Inr (r, resp, st', calls, ls)"
  shows "monitor_ok pf st'"
  using monitor_ok_cases [OF assms(1)]
proof
  assume inv: "monitor_inv pf st"
  have "mon_step pf st (now, tk, op, c) = st'" using assms(2) by (simp add: mon_step_def)
  then show ?thesis using mon_step_inv [OF inv, of "(now, tk, op, c)"] by (simp add: monitor_ok_free)
next
  assume lock: "g_lock st = Inl Deadlock"
  show ?thesis
  proof (cases c)
    case (Some cmd)
    then show ?thesis
      using assms lock monitor_ok_counted [OF assms(1)]
      by (cases "rc_type cmd") (auto simp: process_command_def Let_def create_room_i_def start_room_def
          stop_room_def delete_room_i_def show_room_i_def list_rooms_i_def)
  qed (use assms in \<open>simp add: process_command_def\<close>)
qed

lemma monitor_ok_turn:
  assumes "monitor_ok pf (sd_mon s)"
  shows "monitor_ok pf (sd_mon (snd (thread_turn pf s e)))"
proof -
  obtain i t where e: "e = (i, t)" by (cases e)
  have "monitor_ok pf st'" if "client_loop pf [t] (sd_slot s i) (sd_mon s) = Inr (out, sl, st', ended)" for out sl st' ended
    using that assms by (auto simp: bind_outcome_Inr monitor_ok_command split: if_splits)
  then show ?thesis
    using assms by (auto simp: thread_turn_def e simp del: client_loop.simps split: sum.splits fault.splits)
qed

section \<open>Properties\<close>


text \<open>C8. The first request to start, stop, delete or show a room is the last the rooms see: its client
  waits for ever, the rooms never change again whatever any client sends later, and the only requests
  that are still answered are those for the status.\<close>

theorem first_room_request_is_last:
  assumes "platform_ok pf" and "s = state_after (thread_turn pf)
       (served_start (monitor_start pf (nat (cf_max_rooms cfg) + extra) Normal cfg t0) slots) es"
    and "sd_client s i = Serving" and "request pf t = Some c"
    and "rc_type c \<in> {CMD_START_ROOM, CMD_STOP_ROOM, CMD_DELETE_ROOM, CMD_SHOW_ROOM}"
  shows "fst (thread_turn pf s (i, t)) = Hangs \<and>
    live_slots (sd_mon (state_after (thread_turn pf) s ((i, t) # es'))) = live_slots (sd_mon s) \<and>
    (\<forall>k < length es'. \<forall>bytes. answers (thread_turn pf) s ((i, t) # es') ! Suc k = Answers bytes \<longrightarrow>
       (\<exists>c. request pf (snd (es' ! k)) = Some c \<and> rc_type c = CMD_STATUS))"
proof -
  obtain v where rel: "service_rel pf cfg t0 v s"
    using sv.rel_state_after [OF monitor_start_service [OF assms(1)]] assms(2) by blast
  define v' where "v' = snd (service_turn pf cfg t0 v (i, t))"
  have none: "fst (serve_command pf cfg t0 (h_now t) c v) = None"
    using assms(5) unfolding serve_command_None by blast
  have "sv_client v i = Serving" using rel assms(3) by (simp add: service_rel_def)
  then have turn: "fst (service_turn pf cfg t0 v (i, t)) = Hangs" "sv_shut v'" "sv_rooms v' = sv_rooms v"
    using none assms(4,5) by (auto simp: v'_def service_turn_def serve_command_def Let_def)
  have rel': "service_rel pf cfg t0 v' (snd (thread_turn pf s (i, t)))"
    unfolding v'_def by (rule sv.rel_step [OF rel])
  have "live_slots (sd_mon (state_after (thread_turn pf) s ((i, t) # es'))) = live_slots (sd_mon s)"
    using live_slots_service [OF sv.rel_state_after [OF rel', of es']] live_slots_service [OF rel]
    by (simp add: shut_for_ever [OF turn(2)] turn(3))
  moreover have "\<exists>c. request pf (snd (es' ! k)) = Some c \<and> rc_type c = CMD_STATUS"
    if "k < length es'" and "answers (thread_turn pf) s ((i, t) # es') ! Suc k = Answers bytes" for k bytes
  proof (rule service_turn_shut(3))
    show "sv_shut (state_after (service_turn pf cfg t0) v' (take k es'))" by (rule shut_for_ever [OF turn(2)])
    show "fst (service_turn pf cfg t0 (state_after (service_turn pf cfg t0) v' (take k es')) (es' ! k)) = Answers bytes"
      using that sv.same_answers [OF rel', of es'] by (simp add: answers_nth)
  qed
  moreover have "fst (thread_turn pf s (i, t)) = Hangs" using sv.same_answer [OF rel, of "(i, t)"] turn(1) by simp
  ultimately show ?thesis by blast
qed

section \<open>Witnesses\<close>

definition turn_of :: "string \<Rightarrow> handler_turn" where
  "turn_of text = example_client\<lparr>h_recv := Some text\<rparr>"

definition example_served :: "string served" where
  "example_served = served_start (monitor_start text_platform (nat (cf_max_rooms example_config) + 0) Normal
     example_config 0) (\<lambda>_. zero_slot)"

definition example_requests :: "(nat \<times> handler_turn) list" where
  "example_requests = [(0, turn_of ''create web 5''), (1, turn_of ''start web''), (0, turn_of ''list x''), (2, turn_of ''CREATE db'')]"

lemma text_platform_fits: "platform_ok text_platform"
  by (simp add: platform_ok_def text_platform_def)


theorem first_room_request_is_last_witness:
  "let s = state_after (thread_turn text_platform) example_served [(0, turn_of ''create web 5'')];
       later = [(1, turn_of ''start web''), (0, turn_of ''create db''), (2, turn_of ''status'')]
   in fst (thread_turn text_platform s (hd later)) = Hangs \<and>
      live_slots (sd_mon (state_after (thread_turn text_platform) s later)) = live_slots (sd_mon s)"
proof -
  define s where "s = state_after (thread_turn text_platform) example_served [(0, turn_of ''create web 5'')]"
  define v where "v = state_after (service_turn text_platform example_config 0) service_start [(0, turn_of ''create web 5'')]"
  have "service_rel text_platform example_config 0 v s"
    unfolding s_def v_def example_served_def by (rule sv.rel_state_after [OF monitor_start_service [OF text_platform_fits]])
  then have "sd_client s 1 = sv_client v 1" by (simp add: service_rel_def)
  also have "\<dots> = Serving" unfolding v_def by code_simp
  finally have "sd_client s 1 = Serving" .
  moreover have "map_option rc_type (request text_platform (turn_of ''start web'')) = Some CMD_START_ROOM" by code_simp
  then obtain c where "request text_platform (turn_of ''start web'') = Some c" "rc_type c = CMD_START_ROOM" by blast
  ultimately show ?thesis
    using first_room_request_is_last [OF text_platform_fits s_def [unfolded example_served_def], of 1 "turn_of ''start web''" c
        "[(0, turn_of ''create db''), (2, turn_of ''status'')]"]
    unfolding Let_def s_def [symmetric] by simp
qed

end
