(* ===== verification/MonitorMain.thy ===== *)
theory MonitorMain
  imports MonitorService
begin

text \<open>
  The main thread of the integration daemon: start, main loop, signals and shutdown
  (\<^verbatim>\<open>src/04-integration/main_daemon.c\<close>), over the logger, the connection to the kernel module, the
  rooms and the clients.

  The answers of the system calls are inputs. What other threads do while the main thread sleeps is a
  function on the state. The last part looks at the shutdown and the thread of a room step by step.
\<close>

section \<open>Starting the daemon\<close>

datatype sig_action = Handle_Signal | Ignore_Signal

record 'f world =
  w_logger :: logger
  w_ipc :: ipc
  w_mon :: "'f monitor"
  w_net :: net
  w_socket :: int
  w_signals :: "(int \<times> sig_action) list"
  w_pid_file :: "(string \<times> string) option"

definition emit :: "log_env \<Rightarrow> logs \<Rightarrow> logger \<Rightarrow> logger outcome" where
  "emit env ls lg = log_all (map (\<lambda>(l, m). (env, l, m)) ls) lg"

text \<open>The arguments after the program name, with the configuration file and mode so far.\<close>

fun parse_args :: "string list \<Rightarrow> string \<times> bool \<Rightarrow> string \<times> bool" where
  "parse_args [] acc = acc"
| "parse_args [a] (f, d) = (if a = ''--daemon'' then (f, True) else (f, d))"
| "parse_args (a # b # rest) (f, d) =
     (if a = ''--config'' then parse_args rest (b, d)
      else if a = ''--daemon'' then parse_args (b # rest) (f, True)
      else parse_args (b # rest) (f, d))"

definition DEFAULT_CONFIG_FILE :: string where "DEFAULT_CONFIG_FILE = ''config/monitor.conf''"

text \<open>Socket, bind and listen answer with a descriptor or nothing, or the text of an error. The last
  component lists the descriptors closed again.\<close>

definition initialize_server_socket ::
  "int \<Rightarrow> int + string \<Rightarrow> string option \<Rightarrow> string option \<Rightarrow> int \<times> logs \<times> int list" where
  "initialize_server_socket port sock bind_err listen_err =
     (case sock of
        Inr e \<Rightarrow> (-1, [(LOG_ERROR, ''Failed to create socket: '' @ e)], [])
      | Inl fd \<Rightarrow>
          (case bind_err of
             Some e \<Rightarrow> (-1, [(LOG_ERROR, ''Bind failed: '' @ e)], [fd])
           | None \<Rightarrow>
               (case listen_err of
                  Some e \<Rightarrow> (-1, [(LOG_ERROR, ''Listen failed: '' @ e)], [fd])
                | None \<Rightarrow> (fd, [(LOG_INFO, ''Server socket created on port '' @ show_int port)], []))))"

definition install_signal_handlers :: "int \<times> (int \<times> sig_action) list" where
  "install_signal_handlers = (0, [(2, Handle_Signal), (15, Handle_Signal), (13, Ignore_Signal)])"

text \<open>What is written where, if the file can be opened.\<close>

definition create_pid_file :: "bool \<Rightarrow> int \<Rightarrow> string \<Rightarrow> int \<times> (string \<times> string) option" where
  "create_pid_file opens pid path = (if opens then (0, Some (path, show_int pid @ [NL])) else (-1, None))"

text \<open>The answers of the surroundings while the daemon starts.\<close>

record boot =
  b_files :: "string \<Rightarrow> string option"
  b_mkfifo :: "(bool \<times> string) option"
  b_socket :: "int + string"
  b_bind :: "string option"
  b_listen :: "string option"
  b_pid_opens :: bool
  b_thread :: bool
  b_now :: int
  b_room_slots :: nat
  b_client_slots :: nat

text \<open>
  \<open>main\<close> up to its main loop: \<open>Inl 1\<close> is the exit status of a failed start, \<open>Inr\<close> the state in which
  the daemon runs.
\<close>

definition start_daemon ::
  "'f platform \<Rightarrow> conf_env \<Rightarrow> log_env \<Rightarrow> boot \<Rightarrow> string list \<Rightarrow> (nat + 'f world) outcome" where
  "start_daemon pf ce env b argv =
     (let (config_file, daemon_mode) = parse_args (tl argv) (DEFAULT_CONFIG_FILE, False);
          (r, cfg, ls) = load_configuration ce config_file (b_files b config_file) zero_config
      in if r \<noteq> 0 then Inr (Inl 1)
         else
           bind_outcome (emit env ls (logger_ctx (b_files b))) (\<lambda>lg.
           bind_outcome (logger_init env (cf_log_path cfg) (cf_log_level cfg) (cf_structured cfg) lg) (\<lambda>(r, lg).
             if r \<noteq> 0 then Inr (Inl 1)
             else
               bind_outcome (emit env [(LOG_INFO, ''=== Process Monitor Integration Daemon Starting ===''),
                   (LOG_INFO, ''PID: '' @ show_int (e_pid env))] lg) (\<lambda>lg.
               case ipc_init (b_mkfifo b) ipc_ctx of (r, ip, _, ls) \<Rightarrow>
               bind_outcome (emit env (ls @ (if r \<noteq> 0 then [(LOG_ERROR, ''Failed to initialize IPC'')] else [])) lg)
                 (\<lambda>lg.
                 if r \<noteq> 0 then Inr (Inl 1)
                 else
                   case initialize_server_socket (cf_port cfg) (b_socket b) (b_bind b) (b_listen b) of (fd, ls, _) \<Rightarrow>
                   bind_outcome (emit env (ls @ (if fd < 0 then [(LOG_ERROR, ''Failed to create server socket'')]
                       else if \<not> b_thread b then [(LOG_ERROR, ''Failed to create network thread'')] else [])) lg)
                     (\<lambda>lg.
                     if fd < 0 \<or> \<not> b_thread b then Inr (Inl 1)
                     else Inr (Inr \<lparr>w_logger = lg, w_ipc = ip,
                            w_mon = monitor_start pf (b_room_slots b) Normal cfg (b_now b),
                            w_net = net_start (nat (cf_max_clients cfg)) (b_client_slots b),
                            w_socket = fd, w_signals = snd install_signal_handlers,
                            w_pid_file = snd (create_pid_file (b_pid_opens b) (e_pid env) (cf_pid_file cfg))\<rparr>)))))))"

section \<open>Signals and shutdown\<close>

definition signal_handler_i :: "log_env \<Rightarrow> int \<Rightarrow> 'f world \<Rightarrow> 'f world outcome" where
  "signal_handler_i env sig w =
     bind_outcome (log_info env (''Received signal '' @ show_int sig @ '', stopping daemon'') (w_logger w))
       (\<lambda>lg. Inr (w\<lparr>w_logger := lg, w_mon := (w_mon w)\<lparr>g_running := False\<rparr>\<rparr>))"

text \<open>The main loop: every turn has what the other threads did during the sleep, and the time.\<close>

definition uptime_text :: "int \<Rightarrow> 'f world \<Rightarrow> string" where
  "uptime_text now w = ''Daemon uptime: '' @ show_int (now - g_start (w_mon w)) @ '' seconds, rooms: '' @
     show_int (g_room_count (w_mon w)) @ '', clients: '' @ show_int (n_count (w_net w)) @
     '', commands: '' @ show_nat (unat (g_commands (w_mon w)))"

fun main_loop ::
  "log_env \<Rightarrow> (('f world \<Rightarrow> 'f world) \<times> int) list \<Rightarrow> 'f world \<Rightarrow> ('f world \<times> bool) outcome" where
  "main_loop env [] w = Inr (w, False)"
| "main_loop env ((others, now) # ts) w =
     (if \<not> g_running (w_mon w) then Inr (w, True)
      else
        (let w = others w
         in bind_outcome (log_at LOG_DEBUG env (uptime_text now w) (w_logger w)) (\<lambda>lg.
              main_loop env ts (w\<lparr>w_logger := lg\<rparr>))))"

datatype exit_call =
    Join_Monitor nat | Close_Fd int | Join_Client nat | Ipc_Call ipc_call | Remove_File string

fun stop_monitors :: "nat \<Rightarrow> 'f room_info list \<Rightarrow> nat \<Rightarrow> ('f room_info list \<times> exit_call list) outcome" where
  "stop_monitors 0 rs i = Inr (rs, [])"
| "stop_monitors (Suc n) rs i =
     (case rs of [] \<Rightarrow> Inl Out_Of_Bounds
      | r # rs' \<Rightarrow>
          bind_outcome (stop_monitors n rs' (Suc i)) (\<lambda>(rs'', calls).
            Inr (r\<lparr>ri_active := False\<rparr> # rs'', (if ri_active r then [Join_Monitor i] else []) @ calls)))"

fun close_clients :: "nat \<Rightarrow> slot list \<Rightarrow> nat \<Rightarrow> (slot list \<times> exit_call list) outcome" where
  "close_clients 0 cs i = Inr (cs, [])"
| "close_clients (Suc n) cs i =
     (case cs of [] \<Rightarrow> Inl Out_Of_Bounds
      | c # cs' \<Rightarrow>
          bind_outcome (close_clients n cs' (Suc i)) (\<lambda>(cs'', calls).
            Inr (c\<lparr>sl_active := False\<rparr> # cs'',
                 (if sl_active c then [Close_Fd (sl_fd c), Join_Client i] else []) @ calls)))"

definition remove_pid_file :: "string \<Rightarrow> exit_call" where
  "remove_pid_file pid_file = Remove_File pid_file"

definition cleanup_on_exit :: "log_env \<Rightarrow> 'f world \<Rightarrow> (exit_call list \<times> 'f world) outcome" where
  "cleanup_on_exit env w =
     bind_outcome (log_info env ''Cleaning up before exit'' (w_logger w)) (\<lambda>lg.
     bind_outcome (g_lock ((w_mon w)\<lparr>g_running := False\<rparr>)) (\<lambda>m.
     bind_outcome (stop_monitors (max_slots m) (g_rooms m) 0) (\<lambda>(rs, joins).
     bind_outcome (net_lock (w_net w)) (\<lambda>n.
     bind_outcome (close_clients (n_max n) (n_clients n) 0) (\<lambda>(cs, closes).
     bind_outcome (ipc_cleanup (w_ipc w)) (\<lambda>(ip, ic, ls).
     bind_outcome (emit env ls lg) (\<lambda>lg.
     bind_outcome (logger_cleanup env lg) (\<lambda>lg.
       Inr (joins @ (if 0 \<le> w_socket w then [Close_Fd (w_socket w)] else []) @ closes @
              map Ipc_Call ic @ [remove_pid_file (cf_pid_file (g_config (w_mon w)))],
            w\<lparr>w_logger := lg, w_ipc := ip, w_mon := g_unlock (m\<lparr>g_rooms := rs\<rparr>),
              w_net := net_unlock (n\<lparr>n_clients := cs\<rparr>)\<rparr>)))))))))"

text \<open>The exit status of the whole program, or nothing while it still runs.\<close>

definition main_daemon ::
  "'f platform \<Rightarrow> conf_env \<Rightarrow> log_env \<Rightarrow> boot \<Rightarrow> string list \<Rightarrow> (('f world \<Rightarrow> 'f world) \<times> int) list \<Rightarrow>
     nat option outcome" where
  "main_daemon pf ce env b argv turns =
     bind_outcome (start_daemon pf ce env b argv) (\<lambda>started.
       case started of
         Inl code \<Rightarrow> Inr (Some code)
       | Inr w \<Rightarrow>
           bind_outcome (main_loop env turns w) (\<lambda>(w, ended).
             if ended then bind_outcome (cleanup_on_exit env w) (\<lambda>_. Inr (Some 0)) else Inr None))"

section \<open>Logging goes on\<close>

definition logging :: "logger \<Rightarrow> bool" where
  "logging lg \<longleftrightarrow> log_inv lg \<and> log_file lg \<noteq> None"

lemma rotate_logging:
  assumes "logging lg" and "\<And>p. e_opens env p"
  shows "logging (rotate_log_if_needed env lg)"
  using assms log_inv_rotate [of lg env]
  by (auto simp: logging_def rotate_log_if_needed_def fopen_append_def Let_def)

lemma log_at_logging:
  assumes "logging lg" and "\<And>p. e_opens env p"
  shows "\<exists>lg'. log_at l env m lg = Inr lg' \<and> logging lg' \<and> current_level lg' = current_level lg"
proof -
  obtain p where p: "log_inv lg" "log_file lg = Some p" using assms(1) by (auto simp: logging_def)
  have "logging (lg\<lparr>disk := d\<rparr>)" for d using p by (simp add: logging_def log_inv_def)
  then show ?thesis
    using p rotate_logging [OF _ assms(2)] assms(1) by (simp add: log_at_outcome write_log_def)
qed

lemma log_info_held:
  assumes "logging lg" and "current_level lg \<le> LOG_INFO" and "log_lock lg = Inr lg'"
  shows "log_info env m lg' = Inl Deadlock"
  using assms
  by (auto simp: logging_def log_inv_def log_lock_def mutex_lock_def log_at_def log_message_def log_record_def)

lemma monitor_ok_running: "monitor_ok pf (st\<lparr>g_running := r\<rparr>) = monitor_ok pf st"
  by (simp add: monitor_ok_def monitor_inv_def table_ok_def max_slots_def free_mutex_def live_slots_def held_def)

lemma log_all_logging:
  assumes "logging lg" and "\<forall>(e, l, m) \<in> set ms. \<forall>p. e_opens e p"
  shows "\<exists>lg'. log_all ms lg = Inr lg' \<and> logging lg' \<and> current_level lg' = current_level lg"
  using assms
proof (induction ms arbitrary: lg)
  case (Cons x ms)
  obtain e l m where x: "x = (e, l, m)" by (cases x)
  then have "\<And>p. e_opens e p" using Cons.prems(2) by auto
  then obtain lg' where lg': "log_at l e m lg = Inr lg'" "logging lg'" "current_level lg' = current_level lg"
    using log_at_logging [OF Cons.prems(1)] by blast
  moreover have "\<exists>lg''. log_all ms lg' = Inr lg'' \<and> logging lg'' \<and> current_level lg'' = current_level lg'"
    using Cons.prems(2) by (intro Cons.IH [OF lg'(2)]) simp
  ultimately show ?case by (auto simp: x)
qed simp

lemma emit_logging:
  assumes "logging lg" and "\<And>p. e_opens env p"
  shows "\<exists>lg'. emit env ls lg = Inr lg' \<and> logging lg' \<and> current_level lg' = current_level lg"
  unfolding emit_def using assms by (intro log_all_logging) auto

lemma emit_before_init: "\<not> initialized lg \<Longrightarrow> emit env ls lg = Inr lg"
  by (induction ls) (auto simp: emit_def log_at_def log_message_def)

lemma logger_init_logging:
  assumes "\<And>p. e_opens env p" and "log_inv lg"
  shows "\<exists>lg'. logger_init env path level i lg = Inr (0, lg') \<and> logging lg' \<and> current_level lg' = level"
proof -
  define lg1 where "lg1 = lg\<lparr>
     made_dirs := (case dir_of path of None \<Rightarrow> made_dirs lg | Some d \<Rightarrow> d # made_dirs lg),
     log_file := Some path, disk := (disk lg)(path \<mapsto> contents (disk lg) path),
     log_path := take 255 path, current_level := level, structured_mode := i, initialized := True,
     log_mutex := \<lparr>kind = Normal, depth = 0\<rparr>\<rparr>"
  have "logging lg1" by (simp add: logging_def log_inv_def lg1_def)
  then obtain lg' where "log_info env (init_message path level i) lg1 = Inr lg'" "logging lg'"
    "current_level lg' = current_level lg1"
    using log_at_logging [OF _ assms(1)] by blast
  moreover have "log_mutex lg = \<lparr>kind = Normal, depth = 0\<rparr>" using assms(2) by (simp add: log_inv_def)
  then have "logger_init env path level i lg =
      bind_outcome (log_info env (init_message path level i) lg1) (\<lambda>lg. Inr (0, lg))"
    using assms(1) by (simp add: logger_init_def log_lock_def mutex_lock_def log_unlock_def
        mutex_unlock_def fopen_append_def lg1_def strncpy_c_def split: option.splits)
  ultimately show ?thesis by (simp add: lg1_def)
qed

section \<open>A daemon that runs\<close>

definition plain_config :: "string option \<Rightarrow> bool" where
  "plain_config content \<longleftrightarrow>
     (content = None \<or> (\<exists>kvs. (\<forall>(k, v) \<in> set kvs. key_ok k \<and> value_ok v) \<and> content = Some (config_text kvs)))"

lemma info_below: "LOG_TRACE \<le> LOG_INFO" "LOG_INFO \<le> LOG_INFO"
  by (simp_all add: less_eq_log_level_def)

lemma load_plain_config:
  assumes "plain_config content"
  shows "\<exists>cfg ls. load_configuration ce name content zero_config = (0, cfg, ls) \<and> cf_log_level cfg \<le> LOG_INFO"
proof (cases content)
  case None
  then show ?thesis by (simp add: load_configuration_def info_below)
next
  case (Some given)
  then obtain kvs where kvs: "\<forall>(k, v) \<in> set kvs. key_ok k \<and> value_ok v" "content = Some (config_text kvs)"
    using assms by (auto simp: plain_config_def)
  obtain r cfg ls where load: "load_configuration ce name content zero_config = (r, cfg, ls)"
    by (cases "load_configuration ce name content zero_config")
  then have "r = 0" "cf_log_level cfg \<in> {LOG_TRACE, LOG_INFO}"
    using plain_config_level [OF kvs(1), of ce name] by (simp_all add: kvs(2))
  then show ?thesis using load info_below by auto
qed

text \<open>What a start does when every file can be opened: it fails exactly when a call fails, and a daemon
  that gets to its main loop has an open log at a level that logs its own messages.\<close>

definition started_world ::
  "'f platform \<Rightarrow> log_env \<Rightarrow> boot \<Rightarrow> config \<Rightarrow> logger \<Rightarrow> ipc \<Rightarrow> int \<Rightarrow> 'f world" where
  "started_world pf env b cfg lg ip fd =
     \<lparr>w_logger = lg, w_ipc = ip, w_mon = monitor_start pf (b_room_slots b) Normal cfg (b_now b),
      w_net = net_start (nat (cf_max_clients cfg)) (b_client_slots b), w_socket = fd,
      w_signals = snd install_signal_handlers,
      w_pid_file = snd (create_pid_file (b_pid_opens b) (e_pid env) (cf_pid_file cfg))\<rparr>"

lemma started_world_fields:
  "w_logger (started_world pf env b cfg lg ip fd) = lg"
  "w_ipc (started_world pf env b cfg lg ip fd) = ip"
  "w_mon (started_world pf env b cfg lg ip fd) = monitor_start pf (b_room_slots b) Normal cfg (b_now b)"
  "w_net (started_world pf env b cfg lg ip fd) = net_start (nat (cf_max_clients cfg)) (b_client_slots b)"
  "w_socket (started_world pf env b cfg lg ip fd) = fd"
  "w_pid_file (started_world pf env b cfg lg ip fd) =
     (if b_pid_opens b then Some (cf_pid_file cfg, show_int (e_pid env) @ [NL]) else None)"
  by (simp_all add: started_world_def create_pid_file_def)

lemma start_daemon_outcome:
  assumes "\<And>p. e_opens env p"
    and "plain_config (b_files b (fst (parse_args (tl argv) (DEFAULT_CONFIG_FILE, False))))"
  shows "\<exists>cfg lg. logging lg \<and> current_level lg \<le> LOG_INFO \<and>
    (let name = fst (parse_args (tl argv) (DEFAULT_CONFIG_FILE, False))
     in cfg = fst (snd (load_configuration ce name (b_files b name) zero_config))) \<and>
    start_daemon pf ce env b argv =
      (case ipc_init (b_mkfifo b) ipc_ctx of (r, ip, _) \<Rightarrow>
       case initialize_server_socket (cf_port cfg) (b_socket b) (b_bind b) (b_listen b) of (fd, _) \<Rightarrow>
         Inr (if r \<noteq> 0 \<or> fd < 0 \<or> \<not> b_thread b then Inl 1 else Inr (started_world pf env b cfg lg ip fd)))"
proof -
  obtain conf mode where args: "parse_args (tl argv) (DEFAULT_CONFIG_FILE, False) = (conf, mode)"
    by (cases "parse_args (tl argv) (DEFAULT_CONFIG_FILE, False)")
  obtain cfg ls where cfg: "load_configuration ce conf (b_files b conf) zero_config = (0, cfg, ls)"
    "cf_log_level cfg \<le> LOG_INFO"
    using load_plain_config [OF assms(2), of ce conf] unfolding args fst_conv by blast
  obtain lg1 where lg1: "logger_init env (cf_log_path cfg) (cf_log_level cfg) (cf_structured cfg)
      (logger_ctx (b_files b)) = Inr (0, lg1)" "logging lg1" "current_level lg1 = cf_log_level cfg"
    using logger_init_logging [OF assms(1), of "logger_ctx (b_files b)"] lo.inv_start by blast
  have emits: "\<exists>lg'. emit env ls lg = Inr lg' \<and> logging lg' \<and> current_level lg' = current_level lg"
    if "logging lg" for ls lg
    by (rule emit_logging [OF that assms(1)])
  obtain lg2 where lg2: "emit env [(LOG_INFO, ''=== Process Monitor Integration Daemon Starting ===''),
      (LOG_INFO, ''PID: '' @ show_int (e_pid env))] lg1 = Inr lg2" "logging lg2"
    "current_level lg2 = current_level lg1"
    using emits [OF lg1(2)] by blast
  obtain r ip ic ils where ip: "ipc_init (b_mkfifo b) ipc_ctx = (r, ip, ic, ils)"
    by (cases "ipc_init (b_mkfifo b) ipc_ctx")
  obtain lg3 where lg3: "emit env (ils @ (if r \<noteq> 0 then [(LOG_ERROR, ''Failed to initialize IPC'')] else [])) lg2 =
      Inr lg3" "logging lg3" "current_level lg3 = current_level lg2"
    using emits [OF lg2(2)] by blast
  obtain fd sls cl where fd: "initialize_server_socket (cf_port cfg) (b_socket b) (b_bind b) (b_listen b) = (fd, sls, cl)"
    by (cases "initialize_server_socket (cf_port cfg) (b_socket b) (b_bind b) (b_listen b)")
  obtain lg4 where lg4: "emit env (sls @ (if fd < 0 then [(LOG_ERROR, ''Failed to create server socket'')]
      else if \<not> b_thread b then [(LOG_ERROR, ''Failed to create network thread'')] else [])) lg3 = Inr lg4"
    "logging lg4" "current_level lg4 = current_level lg3"
    using emits [OF lg3(2)] by blast
  have unset: "\<not> initialized (logger_ctx (b_files b))" by (simp add: logger_ctx_def)
  have "start_daemon pf ce env b argv =
      Inr (if r \<noteq> 0 \<or> fd < 0 \<or> \<not> b_thread b then Inl 1 else Inr (started_world pf env b cfg lg4 ip fd))"
    using lg1(1) lg2(1) lg3(1) lg4(1)
    by (simp add: start_daemon_def args cfg(1) emit_before_init [OF unset] ip fd started_world_def)
  then show ?thesis
    using lg1(3) lg2(3) lg3(3) lg4(2,3) cfg(2) by (intro exI [of _ cfg] exI [of _ lg4]) (simp add: ip fd args cfg(1))
qed

lemma start_daemon_cases:
  assumes "\<And>p. e_opens env p"
    and "plain_config (b_files b (fst (parse_args (tl argv) (DEFAULT_CONFIG_FILE, False))))"
  shows "start_daemon pf ce env b argv = Inr (Inl 1) \<or> (\<exists>w. start_daemon pf ce env b argv = Inr (Inr w))"
proof -
  obtain cfg lg where "start_daemon pf ce env b argv =
      (case ipc_init (b_mkfifo b) ipc_ctx of (r, ip, _) \<Rightarrow>
       case initialize_server_socket (cf_port cfg) (b_socket b) (b_bind b) (b_listen b) of (fd, _) \<Rightarrow>
         Inr (if r \<noteq> 0 \<or> fd < 0 \<or> \<not> b_thread b then Inl 1 else Inr (started_world pf env b cfg lg ip fd)))"
    using start_daemon_outcome [OF assms, of ce pf] by blast
  then show ?thesis by (simp split: prod.split)
qed

lemma start_daemon_logging:
  assumes "start_daemon pf ce env b argv = Inr (Inr w)" and "\<And>p. e_opens env p"
    and "plain_config (b_files b (fst (parse_args (tl argv) (DEFAULT_CONFIG_FILE, False))))"
  shows "logging (w_logger w) \<and> current_level (w_logger w) \<le> LOG_INFO \<and>
    (\<exists>cfg. w_mon w = monitor_start pf (b_room_slots b) Normal cfg (b_now b) \<and>
       w_net w = net_start (nat (cf_max_clients cfg)) (b_client_slots b)) \<and>
    (\<exists>made. w_ipc w = fst (snd (ipc_init made ipc_ctx)))"
proof -
  obtain cfg lg where start: "logging lg" "current_level lg \<le> LOG_INFO" "start_daemon pf ce env b argv =
      (case ipc_init (b_mkfifo b) ipc_ctx of (r, ip, _) \<Rightarrow>
       case initialize_server_socket (cf_port cfg) (b_socket b) (b_bind b) (b_listen b) of (fd, _) \<Rightarrow>
         Inr (if r \<noteq> 0 \<or> fd < 0 \<or> \<not> b_thread b then Inl 1 else Inr (started_world pf env b cfg lg ip fd)))"
    using start_daemon_outcome [OF assms(2,3), of ce pf] by blast
  then obtain fd where "w = started_world pf env b cfg lg (fst (snd (ipc_init (b_mkfifo b) ipc_ctx))) fd"
    using assms(1) by (auto split: prod.splits if_splits)
  then show ?thesis using start(1,2) by (auto simp: started_world_fields)
qed

lemma start_daemon_net:
  assumes "start_daemon pf ce env b argv = Inr (Inr w)"
  shows "let name = fst (parse_args (tl argv) (DEFAULT_CONFIG_FILE, False));
       cfg = fst (snd (load_configuration ce name (b_files b name) zero_config))
     in w_net w = net_start (nat (cf_max_clients cfg)) (b_client_slots b)"
proof -
  obtain name mode where args: "parse_args (tl argv) (DEFAULT_CONFIG_FILE, False) = (name, mode)"
    by (cases "parse_args (tl argv) (DEFAULT_CONFIG_FILE, False)")
  obtain r cfg ls where cfg: "load_configuration ce name (b_files b name) zero_config = (r, cfg, ls)"
    by (cases "load_configuration ce name (b_files b name) zero_config")
  obtain r' ip ic ils where ip: "ipc_init (b_mkfifo b) ipc_ctx = (r', ip, ic, ils)"
    by (cases "ipc_init (b_mkfifo b) ipc_ctx")
  obtain fd sls cl where fd: "initialize_server_socket (cf_port cfg) (b_socket b) (b_bind b) (b_listen b) = (fd, sls, cl)"
    by (cases "initialize_server_socket (cf_port cfg) (b_socket b) (b_bind b) (b_listen b)")
  show ?thesis
    using assms by (auto simp: start_daemon_def bind_outcome_Inr args cfg ip fd split: if_splits)
qed

lemma logger_init_no_path:
  "\<not> e_opens env [] \<Longrightarrow> log_inv lg \<Longrightarrow> \<exists>lg'. logger_init env [] level i lg = Inr (-1, lg')"
  by (simp add: logger_init_def fopen_append_def log_inv_def log_lock_def mutex_lock_def dir_of_def strncpy_c_def Let_def)

lemma stop_monitors_returns: "n \<le> length rs \<Longrightarrow> \<exists>x. stop_monitors n rs i = Inr x"
proof (induction n rs i rule: stop_monitors.induct)
  case (2 n rs i)
  then show ?case by (cases rs) force+
qed simp

lemma close_clients_returns: "n \<le> length cs \<Longrightarrow> \<exists>x. close_clients n cs i = Inr x"
proof (induction n cs i rule: close_clients.induct)
  case (2 n cs i)
  then show ?case by (cases cs) force+
qed simp

lemma cleanup_hangs:
  assumes "logging (w_logger w)" and "current_level (w_logger w) \<le> LOG_INFO" and "\<And>p. e_opens env p"
    and "free_mutex Normal (w_mon w)" and "table_ok pf (w_mon w)"
    and "net_inv (w_net w)" and "ipc_inv (w_ipc w)"
  shows "cleanup_on_exit env w = Inl Deadlock"
proof -
  let ?m = "(w_mon w)\<lparr>g_running := False\<rparr>"
  obtain lg1 where lg1: "log_info env ''Cleaning up before exit'' (w_logger w) = Inr lg1" "logging lg1"
    "current_level lg1 = current_level (w_logger w)"
    using log_at_logging [OF assms(1,3)] by blast
  have lock: "g_lock ?m = Inr (held ?m 1)"
    by (rule g_lock_free [of Normal]) (use assms(4) in \<open>simp add: free_mutex_def\<close>)
  have "max_slots ?m \<le> length (g_rooms ?m)" using assms(5) by (simp add: table_ok_def max_slots_def)
  then obtain rs joins where stop: "stop_monitors (max_slots (held ?m 1)) (g_rooms (held ?m 1)) 0 = Inr (rs, joins)"
    using stop_monitors_returns [of "max_slots ?m" "g_rooms ?m" 0] by (auto simp: held_frame)
  have net: "net_lock (w_net w) = Inr (net_held (w_net w))"
    using assms(6) by (intro net_locks) (simp add: net_inv_def)
  have "n_max (w_net w) \<le> length (n_clients (w_net w))" using assms(6) by (simp add: net_inv_def)
  then obtain cs closes where close:
    "close_clients (n_max (net_held (w_net w))) (n_clients (net_held (w_net w))) 0 = Inr (cs, closes)"
    using close_clients_returns [of "n_max (w_net w)" "n_clients (w_net w)" 0] by (auto simp: net_held_frame)
  obtain ip ic ls where ipc: "ipc_cleanup (w_ipc w) = Inr (ip, ic, ls)"
    using assms(7) by (auto simp: ipc_cleanup_def fifo_lock_free)
  obtain lg2 where lg2: "emit env ls lg1 = Inr lg2" "logging lg2" "current_level lg2 = current_level lg1"
    using emit_logging [OF lg1(2) assms(3)] by blast
  have "logger_cleanup env lg2 = Inl Deadlock"
    using cleanup_outcome [of lg2 env] lg2(2,3) lg1(3) assms(2) by (simp add: logging_def)
  then show ?thesis
    by (simp only: cleanup_on_exit_def lg1(1) lock stop net close ipc lg2(1) bind_outcome_simps case_prod_conv)
qed

text \<open>A client thread that waits for ever with the mutex of the rooms stops the cleanup earlier.\<close>

lemma cleanup_hangs_shut:
  assumes "logging (w_logger w)" and "\<And>p. e_opens env p" and "g_lock (w_mon w) = Inl Deadlock"
  shows "cleanup_on_exit env w = Inl Deadlock"
proof -
  obtain lg where lg: "log_info env ''Cleaning up before exit'' (w_logger w) = Inr lg"
    using log_at_logging [OF assms(1,2)] by blast
  have "g_lock ((w_mon w)\<lparr>g_running := False\<rparr>) = Inl Deadlock"
    using assms(3) by (simp add: g_lock_def bind_outcome_def split: sum.splits)
  then show ?thesis by (simp only: cleanup_on_exit_def lg bind_outcome_simps)
qed

section \<open>The main loop\<close>

text \<open>What holds whenever the main thread looks, and what every operation of the other threads keeps.
  The mutex of the rooms is free or held by a client thread that waits for ever.\<close>

definition world_ok :: "'f platform \<Rightarrow> 'f world \<Rightarrow> bool" where
  "world_ok pf w \<longleftrightarrow> logging (w_logger w) \<and> current_level (w_logger w) \<le> LOG_INFO \<and>
     monitor_ok pf (w_mon w) \<and> net_inv (w_net w) \<and> ipc_inv (w_ipc w)"

lemma world_ok_operations:
  assumes "world_ok pf w"
  shows "sd_mon s = w_mon w \<Longrightarrow> world_ok pf (w\<lparr>w_mon := sd_mon (snd (thread_turn pf s e))\<rparr>)"
    and "world_ok pf (w\<lparr>w_mon := (w_mon w)\<lparr>g_running := r\<rparr>\<rparr>)"
    and "world_ok pf (w\<lparr>w_net := net_step (w_net w) n\<rparr>)"
    and "world_ok pf (w\<lparr>w_ipc := ipc_step pf (w_ipc w) i\<rparr>)"
  using assms monitor_ok_turn [of pf s e] net_step_inv [of "w_net w" n] ip.inv_step [of "w_ipc w" pf i]
  by (simp_all add: world_ok_def monitor_ok_running)

text \<open>Any turns of the client threads.\<close>

lemma monitor_ok_turns:
  "monitor_ok pf (sd_mon s) \<Longrightarrow> monitor_ok pf (sd_mon (state_after (thread_turn pf) s es))"
  by (induction es arbitrary: s) (simp_all add: monitor_ok_turn)

lemma world_ok_turns:
  assumes "world_ok pf w" and "sd_mon s = w_mon w"
  shows "world_ok pf (w\<lparr>w_mon := sd_mon (state_after (thread_turn pf) s es)\<rparr>)"
  using assms monitor_ok_turns [of pf s es] by (simp add: world_ok_def)

lemma world_ok_sampled:
  assumes "world_ok pf w" and "i < max_slots (w_mon w)" and "ri_state (g_rooms (w_mon w) ! i) \<noteq> ROOM_STATE_INACTIVE"
  shows "world_ok pf (w\<lparr>w_mon := sampled i d now (w_mon w)\<rparr>)"
proof -
  have "held (sampled i d now (w_mon w)) 0 = sampled i d now (held (w_mon w) 0)"
    by (simp add: sampled_def held_def set_info_def)
  then show ?thesis
    using assms monitor_inv_sampled [of pf "held (w_mon w) 0" i d now]
    by (simp add: world_ok_def monitor_ok_def held_frame)
qed

lemma world_ok_logs:
  assumes "world_ok pf w" and "\<And>p. e_opens env p"
  shows "\<exists>lg. log_at l env m (w_logger w) = Inr lg \<and> world_ok pf (w\<lparr>w_logger := lg\<rparr>)"
  using log_at_logging [of "w_logger w" env l m] assms by (auto simp: world_ok_def)

lemma world_ok_cleanup:
  assumes "world_ok pf w" and "\<And>p. e_opens env p"
  shows "cleanup_on_exit env w = Inl Deadlock"
proof -
  have w: "logging (w_logger w)" "current_level (w_logger w) \<le> LOG_INFO" "monitor_ok pf (w_mon w)"
    "net_inv (w_net w)" "ipc_inv (w_ipc w)"
    using assms(1) by (simp_all add: world_ok_def)
  from monitor_ok_cases [OF w(3)] show ?thesis
  proof
    assume "monitor_inv pf (w_mon w)"
    then show ?thesis using w assms(2) by (intro cleanup_hangs [of w env pf]) (simp_all add: monitor_inv_def)
  qed (rule cleanup_hangs_shut [OF w(1) assms(2)])
qed

lemma world_ok_start:
  assumes "start_daemon pf ce env b argv = Inr (Inr w)" and "\<And>p. e_opens env p"
    and "plain_config (b_files b (fst (parse_args (tl argv) (DEFAULT_CONFIG_FILE, False))))"
    and "max_slots (w_mon w) \<le> b_room_slots b" and "n_max (w_net w) \<le> b_client_slots b"
  shows "world_ok pf w"
proof -
  obtain cfg where w: "logging (w_logger w)" "current_level (w_logger w) \<le> LOG_INFO"
    "w_mon w = monitor_start pf (b_room_slots b) Normal cfg (b_now b)"
    "w_net w = net_start (nat (cf_max_clients cfg)) (b_client_slots b)"
    and ipc: "ipc_inv (w_ipc w)"
    using start_daemon_logging [OF assms(1-3)] ipc_init_inv ip.inv_start by metis
  have "nat (cf_max_rooms cfg) \<le> b_room_slots b"
    using assms(4) by (simp add: w(3) max_slots_def monitor_start_def)
  then obtain extra where "b_room_slots b = nat (cf_max_rooms cfg) + extra" using le_Suc_ex by blast
  then have "monitor_ok pf (w_mon w)" by (simp add: w(3) monitor_start_inv monitor_ok_free)
  moreover have "nat (cf_max_clients cfg) \<le> b_client_slots b" using assms(5) by (simp add: w(4) net_start_def)
  then obtain extra' where "b_client_slots b = nat (cf_max_clients cfg) + extra'" using le_Suc_ex by blast
  then have "net_inv (w_net w)" by (simp add: w(4) net_start_inv)
  ultimately show ?thesis using w(1,2) ipc by (simp add: world_ok_def)
qed

lemma main_loop_ok:
  assumes "world_ok pf w" and "\<And>p. e_opens env p" and "\<forall>(f, now) \<in> set ts. \<forall>w. world_ok pf w \<longrightarrow> world_ok pf (f w)"
  shows "\<exists>w' ended. main_loop env ts w = Inr (w', ended) \<and> world_ok pf w'"
  using assms(1,3)
proof (induction ts arbitrary: w)
  case (Cons t ts)
  obtain f now where t: "t = (f, now)" by (cases t)
  have "world_ok pf (f w)" using Cons.prems t by auto
  then obtain lg where "log_at LOG_DEBUG env (uptime_text now (f w)) (w_logger (f w)) = Inr lg"
    "world_ok pf ((f w)\<lparr>w_logger := lg\<rparr>)"
    using world_ok_logs [OF _ assms(2)] by blast
  then show ?case using Cons.IH [of "(f w)\<lparr>w_logger := lg\<rparr>"] Cons.prems t by (auto simp: Let_def)
qed auto

section \<open>Shutting down beside a monitor thread\<close>

text \<open>
  The cleanup and the thread of one active room, step by step. The thread tests the flags, reads the
  kernel data, takes the mutex of the rooms to store them, gives it back, sleeps and starts again. The
  cleanup clears the running flag, takes the mutex, clears the flag of the room, and joins the thread
  before it gives the mutex back. The test reads the conjunction of both flags.
\<close>

datatype sampler = At_Test | Reading | Waiting | Storing | Sleeping | Ended
datatype cleaner = Before | Stopping | Joining | Cleaned

record exit_state =
  x_sampler :: sampler
  x_cleaner :: cleaner
  x_flag :: bool

definition exit_start :: exit_state where
  "exit_start = \<lparr>x_sampler = At_Test, x_cleaner = Before, x_flag = True\<rparr>"

inductive exit_step :: "exit_state \<Rightarrow> exit_state \<Rightarrow> bool" where
  test_on: "x_sampler s = At_Test \<Longrightarrow> x_flag s \<Longrightarrow> exit_step s (s\<lparr>x_sampler := Reading\<rparr>)"
| test_off: "x_sampler s = At_Test \<Longrightarrow> \<not> x_flag s \<Longrightarrow> exit_step s (s\<lparr>x_sampler := Ended\<rparr>)"
| read_done: "x_sampler s = Reading \<Longrightarrow> exit_step s (s\<lparr>x_sampler := Waiting\<rparr>)"
| lock: "x_sampler s = Waiting \<Longrightarrow> x_cleaner s \<noteq> Joining \<Longrightarrow> exit_step s (s\<lparr>x_sampler := Storing\<rparr>)"
| unlock: "x_sampler s = Storing \<Longrightarrow> exit_step s (s\<lparr>x_sampler := Sleeping\<rparr>)"
| wake: "x_sampler s = Sleeping \<Longrightarrow> exit_step s (s\<lparr>x_sampler := At_Test\<rparr>)"
| stop: "x_cleaner s = Before \<Longrightarrow> exit_step s (s\<lparr>x_cleaner := Stopping, x_flag := False\<rparr>)"
| take: "x_cleaner s = Stopping \<Longrightarrow> x_sampler s \<noteq> Storing \<Longrightarrow> exit_step s (s\<lparr>x_cleaner := Joining\<rparr>)"
| join: "x_cleaner s = Joining \<Longrightarrow> x_sampler s = Ended \<Longrightarrow> exit_step s (s\<lparr>x_cleaner := Cleaned\<rparr>)"

inductive_cases exit_step_elim: "exit_step s s'"

abbreviation exit_run :: "exit_state \<Rightarrow> exit_state \<Rightarrow> bool" where "exit_run \<equiv> exit_step\<^sup>*\<^sup>*"

text \<open>The flag is clear once the cleanup began, and the mutex is held by one of the two.\<close>

definition exit_inv :: "exit_state \<Rightarrow> bool" where
  "exit_inv s \<longleftrightarrow> (x_flag s \<longleftrightarrow> x_cleaner s = Before) \<and> (x_cleaner s = Joining \<longrightarrow> x_sampler s \<noteq> Storing) \<and>
     (x_cleaner s = Cleaned \<longrightarrow> x_sampler s = Ended) \<and> (x_sampler s = Ended \<longrightarrow> \<not> x_flag s)"

lemma exit_inv_step: "exit_step s s' \<Longrightarrow> exit_inv s \<Longrightarrow> exit_inv s'"
  by (erule exit_step_elim) (auto simp: exit_inv_def)

lemma exit_inv_run: "exit_run s s' \<Longrightarrow> exit_inv s \<Longrightarrow> exit_inv s'"
  by (induction rule: rtranclp_induct) (auto intro: exit_inv_step)

lemma exit_inv_reached: "exit_run exit_start s \<Longrightarrow> exit_inv s"
  using exit_inv_run [of exit_start s] by (auto simp: exit_inv_def exit_start_def)

text \<open>How many steps the two can still take when the flag is clear.\<close>

fun sampler_rank :: "sampler \<Rightarrow> nat" where
  "sampler_rank Reading = 5" | "sampler_rank Waiting = 4" | "sampler_rank Storing = 3"
| "sampler_rank Sleeping = 2" | "sampler_rank At_Test = 1" | "sampler_rank Ended = 0"

fun cleaner_rank :: "cleaner \<Rightarrow> nat" where
  "cleaner_rank Before = 3" | "cleaner_rank Stopping = 2" | "cleaner_rank Joining = 1" | "cleaner_rank Cleaned = 0"

definition exit_rank :: "exit_state \<Rightarrow> nat" where
  "exit_rank s = sampler_rank (x_sampler s) + cleaner_rank (x_cleaner s)"

lemma exit_rank_step: "exit_step s s' \<Longrightarrow> \<not> x_flag s \<Longrightarrow> exit_rank s = Suc (exit_rank s') \<and> \<not> x_flag s'"
  by (erule exit_step_elim) (auto simp: exit_rank_def)

lemma exit_rank_steps: "(exit_step ^^ n) s s' \<Longrightarrow> \<not> x_flag s \<Longrightarrow> exit_rank s = n + exit_rank s'"
proof (induction n arbitrary: s)
  case (Suc n)
  then obtain t where "exit_step s t" "(exit_step ^^ n) t s'" by (blast elim: relpowp_Suc_E2)
  then show ?case using Suc.IH [of t] exit_rank_step [of s t] Suc.prems(2) by simp
qed simp

text \<open>Where nothing moves: the end, or the trap.\<close>

definition exit_done :: exit_state where
  "exit_done = \<lparr>x_sampler = Ended, x_cleaner = Cleaned, x_flag = False\<rparr>"

definition exit_stuck :: exit_state where
  "exit_stuck = \<lparr>x_sampler = Waiting, x_cleaner = Joining, x_flag = False\<rparr>"

lemma exit_final:
  assumes "exit_inv s" and "\<And>s'. \<not> exit_step s s'"
  shows "s = exit_done \<or> s = exit_stuck"
proof -
  have "\<not> (x_sampler s = At_Test)" using assms(2) test_on test_off by blast
  moreover have "x_sampler s \<notin> {Reading, Storing, Sleeping}" using assms(2) read_done unlock wake by blast
  moreover have "x_cleaner s \<noteq> Before" using assms(2) stop by blast
  moreover have "x_cleaner s = Stopping \<longrightarrow> x_sampler s = Storing" using assms(2) take by blast
  moreover have "x_cleaner s = Joining \<longrightarrow> x_sampler s \<noteq> Ended" using assms(2) join by blast
  moreover have "x_sampler s = Waiting \<longrightarrow> x_cleaner s = Joining" using assms(2) lock by blast
  ultimately show ?thesis
    using assms(1) by (cases s; cases "x_sampler s"; cases "x_cleaner s")
      (simp_all add: exit_inv_def exit_done_def exit_stuck_def)
qed

definition trapped :: "exit_state \<Rightarrow> bool" where
  "trapped s \<longleftrightarrow> x_cleaner s = Joining \<and> x_sampler s \<in> {Reading, Waiting}"

lemma trapped_step: "exit_step s s' \<Longrightarrow> trapped s \<Longrightarrow> trapped s'"
  by (auto elim!: exit_step_elim simp: trapped_def)

lemma trapped_run: "exit_run s s' \<Longrightarrow> trapped s \<Longrightarrow> trapped s'"
  by (induction rule: rtranclp_induct) (auto intro: trapped_step)

text \<open>From every state with the flag clear the two reach a state where nothing moves.\<close>

lemma exit_settles: "\<not> x_flag s \<Longrightarrow> \<exists>s'. exit_run s s' \<and> (\<forall>s''. \<not> exit_step s' s'')"
proof (induction "exit_rank s" arbitrary: s)
  case 0
  have "\<not> exit_step s s''" for s'' using exit_rank_step [of s s''] 0 by auto
  then show ?case by blast
next
  case (Suc n)
  show ?case
  proof (cases "\<exists>t. exit_step s t")
    case True
    then obtain t where t: "exit_step s t" by blast
    then have "n = exit_rank t" "\<not> x_flag t" using exit_rank_step [OF t Suc.prems] Suc.hyps(2) by auto
    then obtain s' where "exit_run t s'" "\<forall>s''. \<not> exit_step s' s''" using Suc.hyps(1) by blast
    then show ?thesis using t by (blast intro: converse_rtranclp_into_rtranclp)
  qed blast
qed

lemma not_trapped_run:
  "exit_run s s' \<Longrightarrow> x_cleaner s = Joining \<Longrightarrow> \<not> x_flag s \<Longrightarrow> x_sampler s \<notin> {Reading, Waiting} \<Longrightarrow> s' \<noteq> exit_stuck"
proof -
  assume "exit_run s s'" and s: "x_cleaner s = Joining" "\<not> x_flag s" "x_sampler s \<notin> {Reading, Waiting}"
  then have "\<not> x_flag s' \<and> x_cleaner s' \<in> {Joining, Cleaned} \<and> x_sampler s' \<notin> {Reading, Waiting}"
    by (induction rule: rtranclp_induct) (auto elim!: exit_step_elim)
  then show "s' \<noteq> exit_stuck" by (auto simp: exit_stuck_def)
qed

definition exit_stopped :: exit_state where
  "exit_stopped = \<lparr>x_sampler = Waiting, x_cleaner = Stopping, x_flag = False\<rparr>"

lemma exit_stopped_reached: "exit_run exit_start exit_stopped"
proof -
  let ?s = "\<lambda>x c f. \<lparr>x_sampler = x, x_cleaner = c, x_flag = f\<rparr>"
  have "exit_step (?s At_Test Before True) (?s Reading Before True)"
    using test_on [of "?s At_Test Before True"] by simp
  moreover have "exit_step (?s Reading Before True) (?s Waiting Before True)"
    using read_done [of "?s Reading Before True"] by simp
  moreover have "exit_step (?s Waiting Before True) (?s Waiting Stopping False)"
    using stop [of "?s Waiting Before True"] by simp
  ultimately show ?thesis
    unfolding exit_start_def exit_stopped_def by (blast intro: converse_rtranclp_into_rtranclp)
qed

lemma exit_stopped_takes: "exit_step exit_stopped exit_stuck"
  using take [of exit_stopped] by (simp add: exit_stopped_def exit_stuck_def)

lemma exit_stuck_reached: "exit_run exit_start exit_stuck"
  using exit_stopped_reached exit_stopped_takes by (rule rtranclp.rtrancl_into_rtrancl)

section \<open>Properties\<close>



text \<open>C31. The defaults are used only when there is no configuration file at all. With a file that has no
  entry for the path of the log, such as the empty one the repository has at the default place, the
  daemon does not start: the program ends with status 1, whatever else the file says.\<close>

theorem no_log_path_no_daemon:
  assumes "b_files b (fst (parse_args (tl argv) (DEFAULT_CONFIG_FILE, False))) = Some (config_text kvs)"
    and "\<forall>(k, v) \<in> set kvs. key_ok k \<and> value_ok v" and "\<not> has_key ''log_path'' kvs" and "\<not> e_opens env []"
  shows "main_daemon pf ce env b argv turns = Inr (Some 1)"
proof -
  obtain name mode where args: "parse_args (tl argv) (DEFAULT_CONFIG_FILE, False) = (name, mode)"
    by (cases "parse_args (tl argv) (DEFAULT_CONFIG_FILE, False)")
  obtain cfg ls where cfg: "load_configuration ce name (Some (config_text kvs)) zero_config = (0, cfg, ls)"
    by (simp add: load_configuration_def)
  then have "cf_log_path cfg = []"
    using missing_entries(2) [OF assms(2,3), of ce name zero_config] by (simp add: zero_config_def)
  moreover obtain lg where "logger_init env [] (cf_log_level cfg) (cf_structured cfg) (logger_ctx (b_files b)) = Inr (-1, lg)"
    using logger_init_no_path [OF assms(4) lo.inv_start] by blast
  moreover have "\<not> initialized (logger_ctx (b_files b))" by (simp add: logger_ctx_def)
  ultimately show ?thesis
    using assms(1) by (simp add: main_daemon_def start_daemon_def args cfg emit_before_init)
qed

text \<open>C32. A file without an entry for the number of clients, such as the one the repository's own
  integration test writes, makes a daemon that serves nobody: whatever happened before, it closes
  every connection at once.\<close>

theorem no_max_clients_no_service:
  assumes "b_files b (fst (parse_args (tl argv) (DEFAULT_CONFIG_FILE, False))) = Some (config_text kvs)"
    and "\<forall>(k, v) \<in> set kvs. key_ok k \<and> value_ok v" and "\<not> has_key ''max_clients'' kvs"
    and "start_daemon pf ce env b argv = Inr (Inr w)"
  shows "accept_turn (Accepted fd addr port now ok) (run net_step (w_net w) es) =
    Inr (run net_step (w_net w) es, [Close_Client fd], [(LOG_WARN, ''Max clients reached, rejecting connection'')])"
proof -
  have "w_net w = net_start 0 (0 + b_client_slots b)"
    using start_daemon_net [OF assms(4)] missing_entries(1) [OF assms(2,3)] assms(1)
    by (simp add: Let_def zero_config_def)
  moreover have "net_inv (run net_step (net_start 0 (0 + b_client_slots b)) es)" by (rule ne.inv_reached)
  moreover have "n_max (run net_step (net_start 0 (0 + b_client_slots b)) es) = n_max (net_start 0 (0 + b_client_slots b))"
    by (rule ne.run_keeps [OF net_step_max ne.inv_start])
  ultimately show ?thesis by (simp add: accepted_cases net_start_def del: accept_turn.simps)
qed


text \<open>C34. Shutting down beside the thread of a room always ends: once the running flag is clear the two
  take at most seven steps together, and when neither can move, either both have ended or the cleanup
  waits for the thread while the thread waits for the mutex the cleanup holds.\<close>

theorem shutdown_settles:
  assumes "exit_run exit_start s" and "\<not> x_flag s" and "(exit_step ^^ n) s s'"
  shows "n \<le> 7 \<and> ((\<exists>s''. exit_step s' s'') \<or> s' = exit_done \<or> s' = exit_stuck)"
proof -
  have inv: "exit_inv s" using exit_inv_reached assms(1) by blast
  have "exit_run s s'" using assms(3) by (rule relpowp_imp_rtranclp)
  then have "exit_inv s'" using inv exit_inv_run by blast
  moreover have "exit_rank s \<le> 7"
    using inv assms(2) by (cases "x_sampler s"; cases "x_cleaner s") (simp_all add: exit_rank_def exit_inv_def)
  ultimately show ?thesis using exit_rank_steps [OF assms(3,2)] exit_final [of s'] by auto
qed

text \<open>C35. Which of the two it is was decided when the cleanup took the mutex: it can join the thread
  exactly when the thread is not between its test of the flag and its lock.\<close>

theorem cleanup_can_trap_sampler:
  assumes "exit_run exit_start s" and "x_cleaner s = Joining"
  shows "(\<exists>s'. exit_run s s' \<and> x_cleaner s' = Cleaned) \<longleftrightarrow> x_sampler s \<notin> {Reading, Waiting}"
proof
  assume "\<exists>s'. exit_run s s' \<and> x_cleaner s' = Cleaned"
  then show "x_sampler s \<notin> {Reading, Waiting}" using trapped_run [of s] assms(2) by (auto simp: trapped_def)
next
  assume free: "x_sampler s \<notin> {Reading, Waiting}"
  have inv: "exit_inv s" using exit_inv_reached assms(1) by blast
  then have flag: "\<not> x_flag s" using assms(2) by (simp add: exit_inv_def)
  then obtain s' where s': "exit_run s s'" "\<forall>s''. \<not> exit_step s' s''" using exit_settles by blast
  then have "s' = exit_done \<or> s' = exit_stuck" using exit_final exit_inv_run [OF _ inv] by blast
  then have "s' = exit_done" using not_trapped_run [OF s'(1) assms(2) flag free] by blast
  then show "\<exists>s'. exit_run s s' \<and> x_cleaner s' = Cleaned" using s'(1) by (auto simp: exit_done_def)
qed

section \<open>Witnesses\<close>

definition example_boot :: boot where
  "example_boot = \<lparr>b_files = \<lambda>_. None, b_mkfifo = None, b_socket = Inl 3, b_bind = None, b_listen = None,
     b_pid_opens = True, b_thread = True, b_now = 100, b_room_slots = 10, b_client_slots = 50\<rparr>"

lemma example_boot_plain: "plain_config (b_files example_boot p)" "e_opens any_env p"
  by (simp_all add: plain_config_def example_boot_def any_env_def)


theorem no_log_path_no_daemon_witness:
  "main_daemon text_platform dev_env (any_env\<lparr>e_opens := \<lambda>p. p \<noteq> []\<rparr>)
     (example_boot\<lparr>b_files := [DEFAULT_CONFIG_FILE \<mapsto> []]\<rparr>) [''monitor''] [] = Inr (Some 1)"
  by (rule no_log_path_no_daemon [where kvs = "[]"]) (simp_all add: config_text_def file_lines_def has_key_def)

definition test_entries :: "(string \<times> string) list" where
  "test_entries = [(''log_path'', ''logs/test_monitor.log''), (''log_level'', ''debug''),
     (''structured_logging'', ''true''), (''daemon_port'', ''9090''), (''max_rooms'', ''5''),
     (''collection_interval'', ''2''), (''fifo_path'', ''/tmp/test_monitor_fifo''),
     (''procfs_path'', ''/proc/sysmonitor''), (''pid_file'', ''/tmp/test_daemon.pid'')]"

theorem no_max_clients_no_service_witness:
  "\<exists>w. start_daemon text_platform dev_env any_env
       (example_boot\<lparr>b_files := [''t'' \<mapsto> config_text test_entries]\<rparr>) [''monitor'', ''--config'', ''t''] = Inr (Inr w) \<and>
     accept_turn (Accepted 5 ''127.0.0.1'' 40000 7 True) (w_net w) =
       Inr (w_net w, [Close_Client 5], [(LOG_WARN, ''Max clients reached, rejecting connection'')])"
proof -
  let ?b = "example_boot\<lparr>b_files := [''t'' \<mapsto> config_text test_entries]\<rparr>" and ?argv = "[''monitor'', ''--config'', ''t'']"
  have ok: "\<forall>(k, v) \<in> set test_entries. key_ok k \<and> value_ok v" "\<not> has_key ''max_clients'' test_entries"
    by code_simp+
  have name: "parse_args (tl ?argv) (DEFAULT_CONFIG_FILE, False) = (''t'', False)" by simp
  have conf: "b_files ?b (fst (parse_args (tl ?argv) (DEFAULT_CONFIG_FILE, False))) = Some (config_text test_entries)"
    by (simp add: name)
  have plain: "plain_config (b_files ?b (fst (parse_args (tl ?argv) (DEFAULT_CONFIG_FILE, False))))"
    unfolding conf plain_config_def using ok(1) by blast
  obtain w where w: "start_daemon text_platform dev_env any_env ?b ?argv = Inr (Inr w)"
    using start_daemon_outcome [OF example_boot_plain(2) plain, of dev_env text_platform]
    by (auto simp: example_boot_def ipc_init_def initialize_server_socket_def)
  show ?thesis
    using w no_max_clients_no_service [OF conf ok w, of 5 "''127.0.0.1''" 40000 7 True "[]"] by auto
qed

lemma example_starts:
  "\<exists>w. start_daemon text_platform dev_env any_env example_boot [''monitor''] = Inr (Inr w) \<and>
     max_slots (w_mon w) \<le> 10 \<and> n_max (w_net w) \<le> 50 \<and> world_ok text_platform w \<and> g_running (w_mon w)"
proof -
  have conf: "parse_args (tl [''monitor'']) (DEFAULT_CONFIG_FILE, False) = (DEFAULT_CONFIG_FILE, False)" by simp
  obtain w where w: "start_daemon text_platform dev_env any_env example_boot [''monitor''] = Inr (Inr w)"
    "max_slots (w_mon w) \<le> 10" "n_max (w_net w) \<le> 50" "g_running (w_mon w)"
    using start_daemon_outcome [OF example_boot_plain(2,1), where argv = "[''monitor'']" and pf = text_platform and ce = dev_env]
    unfolding conf
    by (auto simp: example_boot_def ipc_init_def initialize_server_socket_def load_configuration_def
        started_world_fields max_slots_def monitor_start_def net_start_def)
  then show ?thesis
    using world_ok_start [OF w(1) example_boot_plain(2,1)] by (auto simp: example_boot_def)
qed



theorem shutdown_settles_witness:
  "exit_run exit_start exit_stopped \<and> \<not> x_flag exit_stopped \<and> (exit_step ^^ 1) exit_stopped exit_stuck \<and>
     (1 :: nat) \<le> 7 \<and> ((\<exists>s''. exit_step exit_stuck s'') \<or> exit_stuck = exit_done \<or> exit_stuck = exit_stuck)"
proof -
  have flag: "\<not> x_flag exit_stopped" by (simp add: exit_stopped_def)
  have step: "(exit_step ^^ 1) exit_stopped exit_stuck" using exit_stopped_takes by (metis relpowp_1)
  show ?thesis
    by (intro conjI exit_stopped_reached flag step) (use shutdown_settles [OF exit_stopped_reached flag step] in blast)+
qed

theorem cleanup_can_trap_sampler_witness:
  "x_cleaner exit_stuck = Joining \<and> \<not> (\<exists>s'. exit_run exit_stuck s' \<and> x_cleaner s' = Cleaned)"
  using cleanup_can_trap_sampler [OF exit_stuck_reached] by (simp add: exit_stuck_def)

end
