(* ===== verification/MonitorClients.thy ===== *)
theory MonitorClients
  imports MonitorService
begin

text \<open>
  The network thread and the client threads of the integration daemon together. A connection gets a
  slot of the client array and a thread; the thread gives its slot back when it ends. A thread that
  waits for ever never ends, so it keeps its slot: the array of slots is bounded, and a request that is
  never answered uses one of them up.
\<close>

section \<open>Connections and turns\<close>

record 'f full =
  fl_served :: "'f served"
  fl_net :: net

datatype full_event = Connect accept | Turn nat handler_turn

definition start_client :: "nat \<Rightarrow> slot \<Rightarrow> 'f served \<Rightarrow> 'f served" where
  "start_client i sl s = s\<lparr>sd_slot := (sd_slot s)(i := sl), sd_client := (sd_client s)(i := Serving)\<rparr>"

text \<open>An accepted connection starts the thread of the slot it was given; a thread that ends closes its
  socket and gives its slot back.\<close>

fun full_step :: "'f platform \<Rightarrow> 'f full \<Rightarrow> full_event \<Rightarrow> 'f full" where
  "full_step pf s (Connect a) =
     (case accept_turn a (fl_net s) of
        Inl _ \<Rightarrow> s
      | Inr (n, _, _) \<Rightarrow>
          (case find (\<lambda>i. sl_active (n_clients n ! i) \<and> \<not> sl_active (n_clients (fl_net s) ! i)) [0..<n_max n] of
             None \<Rightarrow> s\<lparr>fl_net := n\<rparr>
           | Some i \<Rightarrow> s\<lparr>fl_net := n, fl_served := start_client i (n_clients n ! i) (fl_served s)\<rparr>))"
| "full_step pf s (Turn i t) =
     (case thread_turn pf (fl_served s) (i, t) of (r, sv) \<Rightarrow>
        s\<lparr>fl_served := sv, fl_net := (if r = Leaves then fst (client_ends i (fl_net s)) else fl_net s)\<rparr>)"

definition full_start :: "'f platform \<Rightarrow> config \<Rightarrow> int \<Rightarrow> nat \<Rightarrow> nat \<Rightarrow> 'f full" where
  "full_start pf cfg t0 rooms clients =
     \<lparr>fl_served = (served_start (monitor_start pf (nat (cf_max_rooms cfg) + rooms) Normal cfg t0) (\<lambda>_. zero_slot))
        \<lparr>sd_client := \<lambda>_. Gone\<rparr>,
      fl_net = net_start (nat (cf_max_clients cfg)) (nat (cf_max_clients cfg) + clients)\<rparr>"

section \<open>Threads and slots\<close>

text \<open>A thread runs exactly when its slot is in use.\<close>

definition live_slot :: "net \<Rightarrow> nat \<Rightarrow> bool" where
  "live_slot n i \<longleftrightarrow> i < n_max n \<and> sl_active (n_clients n ! i)"

lemma live_slot_frame [simp]:
  "i < length (n_clients n) \<Longrightarrow> live_slot (set_slot i sl n) j = (if j = i then i < n_max n \<and> sl_active sl else live_slot n j)"
  "live_slot (n\<lparr>n_count := c\<rparr>) j = live_slot n j"
  by (simp_all add: live_slot_def nth_list_update)

definition full_inv :: "'f platform \<Rightarrow> config \<Rightarrow> int \<Rightarrow> 'f full \<Rightarrow> bool" where
  "full_inv pf cfg t0 s \<longleftrightarrow> net_inv (fl_net s) \<and> n_max (fl_net s) = nat (cf_max_clients cfg) \<and>
     (\<exists>v. service_rel pf cfg t0 v (fl_served s)) \<and>
     (\<forall>i. sd_client (fl_served s) i = Gone \<longleftrightarrow> \<not> live_slot (fl_net s) i)"

lemma full_invD:
  assumes "full_inv pf cfg t0 s"
  shows "net_inv (fl_net s)" and "n_max (fl_net s) = nat (cf_max_clients cfg)"
    and "sd_client (fl_served s) i = Gone \<longleftrightarrow> \<not> live_slot (fl_net s) i"
    and "n_max (fl_net s) \<le> length (n_clients (fl_net s))"
  using assms by (simp_all add: full_inv_def net_inv_def)

lemma full_start_inv:
  assumes "platform_ok pf"
  shows "full_inv pf cfg t0 (full_start pf cfg t0 rooms clients)"
proof -
  have "service_rel pf cfg t0 (service_start\<lparr>sv_client := \<lambda>_. Gone\<rparr>) (fl_served (full_start pf cfg t0 rooms clients))"
    using monitor_start_service [OF assms, of cfg t0 rooms "\<lambda>_. zero_slot"]
    by (simp add: full_start_def service_rel_def serves_list_client)
  moreover have "\<not> live_slot (net_start m (m + clients)) i" for m i
    by (simp add: live_slot_def net_start_def zero_slot_def)
  ultimately show ?thesis
    using net_start_inv [of "nat (cf_max_clients cfg)" clients]
    by (simp add: full_inv_def) (auto simp: full_start_def net_start_def)
qed

text \<open>What a turn does to the client and to no other.\<close>

lemma thread_turn_state:
  assumes "service_rel pf cfg t0 v s" and "thread_turn pf s (i, t) = (r, s')"
  shows "(\<exists>v'. service_rel pf cfg t0 v' s') \<and> r \<noteq> Crashes \<and>
     sd_client s' = (sd_client s)(i := if r = Leaves then Gone else if r = Hangs then Hanging else sd_client s i) \<and>
     (r = Leaves \<or> r = Hangs \<longrightarrow> sd_client s i = Serving)"
proof -
  have sim: "r = fst (service_turn pf cfg t0 v (i, t))" "service_rel pf cfg t0 (snd (service_turn pf cfg t0 v (i, t))) s'"
    using turn_simulated [OF assms(1), of "(i, t)"] assms(2) by simp_all
  have client: "sd_client s = sv_client v" "sd_client s' = sv_client (snd (service_turn pf cfg t0 v (i, t)))"
    using assms(1) sim(2) by (simp_all add: service_rel_def)
  have "sv_client (snd (service_turn pf cfg t0 v (i, t))) = (sv_client v)(i := if r = Leaves then Gone
      else if r = Hangs then Hanging else sv_client v i) \<and> r \<noteq> Crashes \<and>
      (r = Leaves \<or> r = Hangs \<longrightarrow> sv_client v i = Serving)"
  proof (cases "sv_client v i = Serving")
    case serving: True
    show ?thesis
    proof (cases "request pf t")
      case (Some c)
      obtain b v' where b: "serve_command pf cfg t0 (h_now t) c v = (b, v')" by fastforce
      then have "sv_client v' = sv_client v" using serve_command_client by (metis snd_conv)
      then show ?thesis using serving by (cases b) (simp_all add: sim(1) service_turn_def Some b fun_upd_idem)
    qed (simp add: sim(1) service_turn_def serving)
  qed (simp add: sim(1) service_turn_def)
  then show ?thesis using sim(2) client by auto
qed

lemma client_ends_live:
  assumes "net_inv n" and "live_slot n i"
  shows "net_inv (fst (client_ends i n))" and "n_max (fst (client_ends i n)) = n_max n"
    and "live_slot (fst (client_ends i n)) j \<longleftrightarrow> j \<noteq> i \<and> live_slot n j"
proof -
  show "net_inv (fst (client_ends i n))" using net_step_inv [OF assms(1), of "Client_Ends i"] by simp
  show "n_max (fst (client_ends i n)) = n_max n" by (simp add: client_ends_def)
  have "i < length (n_clients n)" "sl_active (n_clients n ! i)" using assms by (simp_all add: net_inv_def live_slot_def)
  then show "live_slot (fst (client_ends i n)) j \<longleftrightarrow> j \<noteq> i \<and> live_slot n j" by (simp add: client_ends_def)
qed

lemma turn_inv:
  assumes "full_inv pf cfg t0 s"
  shows "full_inv pf cfg t0 (full_step pf s (Turn i t))"
proof -
  obtain r sv where turn: "thread_turn pf (fl_served s) (i, t) = (r, sv)" by (cases "thread_turn pf (fl_served s) (i, t)")
  obtain v where v: "service_rel pf cfg t0 v (fl_served s)" using assms by (auto simp: full_inv_def)
  note inv = full_invD [OF assms]
  obtain v' where state: "service_rel pf cfg t0 v' sv" "sd_client sv = (sd_client (fl_served s))
      (i := if r = Leaves then Gone else if r = Hangs then Hanging else sd_client (fl_served s) i)"
    "r = Leaves \<or> r = Hangs \<longrightarrow> sd_client (fl_served s) i = Serving"
    using thread_turn_state [OF v turn] by blast
  then have live: "r = Leaves \<or> r = Hangs \<longrightarrow> live_slot (fl_net s) i" using inv(3) [of i] by auto
  show ?thesis
  proof (cases "r = Leaves")
    case True
    then have step: "full_step pf s (Turn i t) = s\<lparr>fl_served := sv, fl_net := fst (client_ends i (fl_net s))\<rparr>"
      by (simp add: turn)
    note ends = client_ends_live [OF inv(1), of i]
    show ?thesis
      unfolding step full_inv_def using state(1,2) True live inv(2,3) ends by auto
  next
    case False
    then have step: "full_step pf s (Turn i t) = s\<lparr>fl_served := sv\<rparr>" by (simp add: turn)
    show ?thesis
      unfolding step full_inv_def using state(1,2) False live inv(1-3) by auto
  qed
qed

lemma connect_cases:
  assumes "full_inv pf cfg t0 s" and "a = Accepted fd addr port now ok"
  shows "full_step pf s (Connect a) =
     (case find (\<lambda>j. \<not> sl_active (n_clients (fl_net s) ! j)) [0..<n_max (fl_net s)] of
        None \<Rightarrow> s
      | Some i \<Rightarrow>
          if ok then s\<lparr>fl_net := (set_slot i (new_slot fd addr port now) (fl_net s))\<lparr>n_count := n_count (fl_net s) + 1\<rparr>,
                       fl_served := start_client i (new_slot fd addr port now) (fl_served s)\<rparr>
          else s\<lparr>fl_net := set_slot i ((new_slot fd addr port now)\<lparr>sl_active := False\<rparr>) (fl_net s)\<rparr>)"
proof -
  note inv = full_invD(1) [OF assms(1)] and len = full_invD(4) [OF assms(1)]
  let ?cs = "n_clients (fl_net s)"
  show ?thesis
  proof (cases "find (\<lambda>j. \<not> sl_active (?cs ! j)) [0..<n_max (fl_net s)]")
    case None
    have "find (\<lambda>i. sl_active (?cs ! i) \<and> \<not> sl_active (?cs ! i)) js = None" for js by (induction js) simp_all
    then show ?thesis
      by (simp add: assms(2) accepted_cases [OF inv] None del: accept_turn.simps)
  next
    case (Some i)
    then have i: "i < n_max (fl_net s)" "\<not> sl_active (?cs ! i)" by (auto simp: find_Some_iff)
    have here: "sl_active (?cs[i := sl] ! j) \<and> \<not> sl_active (?cs ! j) \<longleftrightarrow> j = i \<and> sl_active sl" if "j < n_max (fl_net s)" for sl j
      using that i len by (auto simp: nth_list_update)
    have "find (\<lambda>j. sl_active (?cs[i := sl] ! j) \<and> \<not> sl_active (?cs ! j)) [0..<n_max (fl_net s)] =
        find (\<lambda>j. j = i \<and> sl_active sl) [0..<n_max (fl_net s)]" for sl
      using here by (intro find_cong) auto
    moreover have "find (\<lambda>j. j = i \<and> b) [0..<n_max (fl_net s)] = (if b then Some i else None)" for b
      using i(1) by (auto simp: find_None_iff intro!: find_first)
    ultimately show ?thesis
      using i len by (simp add: assms(2) accepted_cases [OF inv] Some new_slot_def del: accept_turn.simps)
  qed
qed

lemma start_client_rel:
  assumes "service_rel pf cfg t0 v s"
  shows "\<exists>v'. service_rel pf cfg t0 v' (start_client i sl s)"
  using assms by (intro exI [of _ "v\<lparr>sv_client := (sv_client v)(i := Serving)\<rparr>"])
    (simp add: service_rel_def start_client_def serves_list_client)

lemma connect_inv:
  assumes "full_inv pf cfg t0 s"
  shows "full_inv pf cfg t0 (full_step pf s (Connect a))"
proof (cases a)
  case (Accept_Failed err running)
  have "find (\<lambda>i. sl_active (n_clients (fl_net s) ! i) \<and> \<not> sl_active (n_clients (fl_net s) ! i)) js = None" for js
    by (induction js) simp_all
  then show ?thesis using assms by (simp add: Accept_Failed)
next
  case (Accepted fd addr port now ok)
  show ?thesis
  proof (cases "find (\<lambda>j. \<not> sl_active (n_clients (fl_net s) ! j)) [0..<n_max (fl_net s)]")
    case None
    then show ?thesis using assms connect_cases [OF assms Accepted] by simp
  next
    case (Some i)
    then have i: "i < n_max (fl_net s)" "\<not> sl_active (n_clients (fl_net s) ! i)" by (auto simp: find_Some_iff)
    obtain v where v: "service_rel pf cfg t0 v (fl_served s)" using assms by (auto simp: full_inv_def)
    note inv = full_invD [OF assms]
    let ?sl = "new_slot fd addr port now"
    have len: "i < length (n_clients (fl_net s))" using inv(4) i(1) by simp
    have net: "net_inv ((set_slot i sl (fl_net s))\<lparr>n_count := c\<rparr>)" "net_inv (set_slot i sl (fl_net s))" for sl c
      using inv(1) i(1) by (auto simp: net_inv_def nth_list_update)
    have active: "sl_active ?sl" by (simp add: new_slot_def)
    note step = connect_cases [OF assms Accepted, unfolded Some option.case]
    show ?thesis
    proof (cases ok)
      case True
      then show ?thesis
        unfolding step full_inv_def using net start_client_rel [OF v, of i ?sl] inv(2,3) i(1) len active
        by (simp add: start_client_def)
    next
      case False
      have "\<not> live_slot (fl_net s) i" using i(2) by (simp add: live_slot_def)
      then show ?thesis
        unfolding step full_inv_def using net v inv(2,3) len False by auto
    qed
  qed
qed

lemma full_step_inv: "full_inv pf cfg t0 s \<Longrightarrow> full_inv pf cfg t0 (full_step pf s e)"
  by (cases e) (simp_all add: connect_inv turn_inv del: full_step.simps)

section \<open>Slots that are never given back\<close>

interpretation fu: machine "full_step pf" "full_start pf cfg t0 rooms clients"
  "\<lambda>s. platform_ok pf \<longrightarrow> full_inv pf cfg t0 s" for pf :: "'f platform" and cfg t0 rooms clients
  by unfold_locales (simp_all add: full_start_inv full_step_inv del: full_step.simps)

lemma hanging_stays:
  assumes "full_inv pf cfg t0 s" and "sd_client (fl_served s) i = Hanging"
  shows "sd_client (fl_served (full_step pf s e)) i = Hanging"
proof (cases e)
  case (Turn j t)
  obtain r sv where turn: "thread_turn pf (fl_served s) (j, t) = (r, sv)" by (cases "thread_turn pf (fl_served s) (j, t)")
  obtain v where v: "service_rel pf cfg t0 v (fl_served s)" using assms(1) by (auto simp: full_inv_def)
  show ?thesis using thread_turn_state [OF v turn] assms(2) by (auto simp: Turn turn)
next
  case (Connect a)
  show ?thesis
  proof (cases a)
    case (Accept_Failed err running)
    then show ?thesis using assms(2) by (simp add: Connect start_client_def find_None_iff split: option.split) (auto simp: find_Some_iff)
  next
    case (Accepted fd addr port now ok)
    have "live_slot (fl_net s) i" using full_invD(3) [OF assms(1), of i] assms(2) by simp
    then have "find (\<lambda>j. \<not> sl_active (n_clients (fl_net s) ! j)) [0..<n_max (fl_net s)] \<noteq> Some i"
      by (auto simp: find_Some_iff live_slot_def)
    then show ?thesis
      using assms(2) by (auto simp: Connect connect_cases [OF assms(1) Accepted] start_client_def
          simp del: full_step.simps split: option.split)
  qed
qed

lemma hanging_for_ever:
  assumes "full_inv pf cfg t0 s" and "sd_client (fl_served s) i = Hanging"
  shows "sd_client (fl_served (run (full_step pf) s es)) i = Hanging \<and> full_inv pf cfg t0 (run (full_step pf) s es)"
  using assms
proof (induction es arbitrary: s)
  case (Cons e es)
  show ?case using Cons.IH [OF full_step_inv [OF Cons.prems(1)] hanging_stays [OF Cons.prems]] by simp
qed simp

text \<open>A connection with a request that is never answered takes the first free slot for good.\<close>

definition unanswered :: "'f platform \<Rightarrow> handler_turn \<Rightarrow> bool" where
  "unanswered pf t \<longleftrightarrow>
     (case request pf t of None \<Rightarrow> False
      | Some c \<Rightarrow> rc_type c \<in> {CMD_START_ROOM, CMD_STOP_ROOM, CMD_DELETE_ROOM, CMD_SHOW_ROOM})"

definition attack :: "accept \<Rightarrow> handler_turn \<Rightarrow> nat \<Rightarrow> full_event list" where
  "attack a t n = concat (map (\<lambda>i. [Connect a, Turn i t]) [0..<n])"

lemma attack_Suc: "attack a t (Suc n) = attack a t n @ [Connect a, Turn n t]"
  by (simp add: attack_def)

lemma attack_round:
  assumes "full_inv pf cfg t0 s" and "unanswered pf t" and "a = Accepted fd addr port now True"
    and "k < nat (cf_max_clients cfg)" and "\<forall>i. sd_client (fl_served s) i = (if i < k then Hanging else Gone)"
  shows "\<forall>i. sd_client (fl_served (run (full_step pf) s [Connect a, Turn k t])) i = (if i < Suc k then Hanging else Gone)"
proof -
  note inv = full_invD [OF assms(1)]
  have "sl_active (n_clients (fl_net s) ! i) \<longleftrightarrow> i < k" if "i < n_max (fl_net s)" for i
    using inv(3) [of i] assms(5) that by (auto simp: live_slot_def split: if_splits)
  then have "find (\<lambda>j. \<not> sl_active (n_clients (fl_net s) ! j)) [0..<n_max (fl_net s)] = Some k"
    using assms(4) inv(2) by (intro find_first) auto
  then have conn: "full_step pf s (Connect a) = s\<lparr>fl_net := (set_slot k (new_slot fd addr port now) (fl_net s))
      \<lparr>n_count := n_count (fl_net s) + 1\<rparr>, fl_served := start_client k (new_slot fd addr port now) (fl_served s)\<rparr>"
    by (simp add: connect_cases [OF assms(1,3)] del: full_step.simps)
  define s1 where "s1 = full_step pf s (Connect a)"
  have client1: "sd_client (fl_served s1) = (sd_client (fl_served s))(k := Serving)"
    by (simp add: s1_def conn start_client_def del: full_step.simps)
  have inv1: "full_inv pf cfg t0 s1" unfolding s1_def by (rule full_step_inv [OF assms(1)])
  then obtain v where v: "service_rel pf cfg t0 v (fl_served s1)" by (auto simp: full_inv_def)
  obtain c where c: "request pf t = Some c" "rc_type c \<in> {CMD_START_ROOM, CMD_STOP_ROOM, CMD_DELETE_ROOM, CMD_SHOW_ROOM}"
    using assms(2) by (auto simp: unanswered_def split: option.splits)
  then have "fst (serve_command pf cfg t0 (h_now t) c v) = None" unfolding serve_command_None by blast
  moreover have "sv_client v = sd_client (fl_served s1)" using v by (simp add: service_rel_def)
  then have "sv_client v k = Serving" by (simp add: client1)
  ultimately have "fst (service_turn pf cfg t0 v (k, t)) = Hangs"
    using c(1) by (cases "serve_command pf cfg t0 (h_now t) c v") (simp add: service_turn_def)
  then obtain sv where turn: "thread_turn pf (fl_served s1) (k, t) = (Hangs, sv)"
    using turn_simulated [OF v, of "(k, t)"] by (cases "thread_turn pf (fl_served s1) (k, t)") simp
  have "sd_client sv = (sd_client (fl_served s1))(k := Hanging)"
    using thread_turn_state [OF v turn] by simp
  moreover have "run (full_step pf) s [Connect a, Turn k t] = full_step pf s1 (Turn k t)"
    by (simp add: s1_def del: full_step.simps)
  ultimately show ?thesis using assms(5) client1 turn by auto
qed

lemma attack_hangs:
  assumes "platform_ok pf" and "unanswered pf t" and "a = Accepted fd addr port now True"
    and "k \<le> nat (cf_max_clients cfg)"
  shows "\<forall>i. sd_client (fl_served (run (full_step pf) (full_start pf cfg t0 rooms clients) (attack a t k))) i =
    (if i < k then Hanging else Gone)"
  using assms(4)
proof (induction k)
  case 0
  show ?case by (simp add: attack_def full_start_def)
next
  case (Suc k)
  let ?s = "run (full_step pf) (full_start pf cfg t0 rooms clients) (attack a t k)"
  have "full_inv pf cfg t0 ?s" using fu.inv_reached assms(1) by blast
  from attack_round [OF this assms(2,3)] Suc show ?case unfolding attack_Suc run_append by simp
qed

section \<open>Properties\<close>

text \<open>C4. As many connections as clients are allowed, with one request each to start, stop, delete or show
  some room, shut the integration daemon for ever: whatever happens afterwards, it closes every new
  connection at once.\<close>

theorem few_requests_exhaust_daemon:
  assumes "platform_ok pf" and "unanswered pf t"
  shows "let s = run (full_step pf) (full_start pf cfg t0 rooms clients)
             (attack (Accepted fd addr port now True) t (nat (cf_max_clients cfg)) @ es)
     in accept_turn (Accepted fd' addr' port' now' ok) (fl_net s) =
          Inr (fl_net s, [Close_Client fd'], [(LOG_WARN, ''Max clients reached, rejecting connection'')])"
proof -
  let ?m = "nat (cf_max_clients cfg)" and ?a = "Accepted fd addr port now True"
  define s0 where "s0 = run (full_step pf) (full_start pf cfg t0 rooms clients) (attack ?a t ?m)"
  define s where "s = run (full_step pf) s0 es"
  have inv0: "full_inv pf cfg t0 s0" unfolding s0_def using fu.inv_reached assms(1) by blast
  have hang: "sd_client (fl_served s0) i = Hanging" if "i < ?m" for i
    using attack_hangs [OF assms refl, where k = ?m and cfg = cfg] that by (simp add: s0_def)
  have inv: "full_inv pf cfg t0 s"
    unfolding s_def using fu.inv_run [of pf cfg t0 s0 es] inv0 assms(1) by simp
  have "sl_active (n_clients (fl_net s) ! i)" if "i < n_max (fl_net s)" for i
  proof -
    have "i < ?m" using that full_invD(2) [OF inv] by simp
    then have "sd_client (fl_served s) i = Hanging" unfolding s_def using hanging_for_ever [OF inv0 hang] by blast
    then show ?thesis using full_invD(3) [OF inv, of i] by (simp add: live_slot_def)
  qed
  then have "find (\<lambda>j. \<not> sl_active (n_clients (fl_net s) ! j)) [0..<n_max (fl_net s)] = None"
    by (auto simp: find_None_iff)
  then show ?thesis
    using accepted_cases [OF full_invD(1) [OF inv], of fd' addr' port' now' ok]
    by (simp add: Let_def s_def s0_def del: accept_turn.simps full_step.simps)
qed

theorem few_requests_exhaust_daemon_witness:
  "let s = run (full_step text_platform) (full_start text_platform example_config 0 0 0)
         (attack (Accepted 5 ''10.0.0.1'' 4000 1 True) (turn_of ''show x'') (nat (cf_max_clients example_config)) @ [])
   in accept_turn (Accepted 9 ''10.0.0.2'' 4001 2 True) (fl_net s) =
        Inr (fl_net s, [Close_Client 9], [(LOG_WARN, ''Max clients reached, rejecting connection'')])"
proof (rule few_requests_exhaust_daemon [OF text_platform_fits])
  show "unanswered text_platform (turn_of ''show x'')" by code_simp
qed

end
