(* ===== verification/Spec2Isabelle.thy ===== *)
theory Spec2Isabelle
  imports KernelModule LocGen DaemonThreads Session LoggerThreads MonitorMain MonitorClients
begin

text \<open>
  A verification development for the process monitor: a kernel module with entries in procfs, a
  command-line room generator, a socket daemon with its client, and an integration daemon. The four
  directories of \<^verbatim>\<open>src/\<close> are four stages of one project. They share no code, but meet at run time:
  the integration daemon reads and writes \<^verbatim>\<open>/proc/sysmonitor\<close>, which the module provides, and listens
  on the port the client of the socket daemon connects to. This theory holds the properties that
  span parts; all others stand in the theory of their part.

  Theories and the code they model.

  \<^item> \<open>Prelude\<close>: results of C functions (\<open>outcome\<close>, with the faults deadlock, access out of bounds and
    null pointer), mutexes, and the interfaces \<open>machine\<close>, \<open>simulation\<close>, \<open>codec\<close>, \<open>name_table\<close> and
    \<open>shrinking_table\<close>.
  \<^item> \<open>CriticalSections\<close>: runs of threads, and the interface \<open>critical_section\<close> of what a thread does
    between lock and unlock.
  \<^item> \<open>CLib\<close>: what the code uses of the C library (\<open>snprintf\<close>, \<open>strncpy\<close>, \<open>strncmp\<close>, \<open>sscanf\<close>, \<open>atoi\<close>,
    \<open>fgets\<close>, \<open>strtok\<close>) on strings without their terminator.
  \<^item> \<open>KernelModule\<close>: \<^verbatim>\<open>01-kernel-module/proc_monitor.c\<close>. State \<open>kmod\<close> is its static variables.
  \<^item> \<open>LocGen\<close>: \<^verbatim>\<open>02-loc-gen\<close> (\<^verbatim>\<open>room_manager.c\<close>, \<^verbatim>\<open>data_collector.c\<close>, \<^verbatim>\<open>main.c\<close>). State
    \<open>lg_state\<close> is the array of rooms with its count; refined to a list of rooms.
  \<^item> \<open>DaemonRooms\<close>, \<open>DaemonCommands\<close>, \<open>DaemonServer\<close>: \<^verbatim>\<open>03-communication/daemon\<close>. The room table
    and the bounded listing; the command handler, refined to a service on a map of rooms; sockets,
    threads and signals, with the threads interleaved by the step relation \<open>sys_step\<close>.
  \<^item> \<open>DaemonService\<close>, \<open>DaemonThreads\<close>: the socket daemon with all its clients as one list of rooms
    that answers one command after the other; \<open>main\<close> and the client threads with the mutex and every
    access to the room table as a step (\<open>thread_step\<close>), refined to that list.
  \<^item> \<open>Client\<close>, \<open>Session\<close>: \<^verbatim>\<open>03-communication/client\<close>, and a client talking to the socket daemon.
  \<^item> \<open>Logger\<close>: \<^verbatim>\<open>04-integration/logger.c\<close>. State \<open>logger\<close> is \<open>logger_ctx\<close> with the files on the
    disk; refined to a bounded store of logs. \<open>LoggerThreads\<close>: threads that log at the same time
    (\<open>lt_next\<close>), refined to that store.
  \<^item> \<open>IpcMessages\<close>, \<open>IpcHandler\<close>: \<^verbatim>\<open>04-integration/ipc_handler.h\<close> and \<^verbatim>\<open>ipc_handler.c\<close>: the structure of a
    raw message and its bytes; pipe, procfs entry and the fallback files.
  \<^item> \<open>MonitorConfig\<close>, \<open>MonitorRooms\<close>, \<open>MonitorServer\<close>, \<open>MonitorMain\<close>:
    \<^verbatim>\<open>04-integration/main_daemon.c\<close>: the configuration file; the rooms and \<open>process_command\<close>; client,
    network and monitor threads; \<open>main\<close>, signals and cleanup. State \<open>monitor\<close> is the part of
    \<open>g_daemon_state\<close> and \<open>g_daemon_stats\<close> that rooms and commands use, \<open>net\<close> its clients, and
    \<open>world\<close> puts them together with the logger and the connection to the kernel module.
  \<^item> \<open>MonitorService\<close>, \<open>MonitorClients\<close>: the client threads of the integration daemon side by side
    (state \<open>served\<close>, \<open>thread_turn\<close>), refined to a service on a list of rooms (\<open>service_turn\<close>), and
    together with the network thread and its slots (state \<open>full\<close>, \<open>full_step\<close>). A thread that waits for
    ever keeps the mutex and the slot it has.

  Conventions. A function of the code is a function from its arguments, the state, and what its
  surroundings answer (results of system calls, contents of files, the time) to its result, the new
  state and the calls it makes. Integers are kept in the 32-bit range where they are read
  (\<open>int32\<close>), counters of 64 bits are words. A thread that takes a normal mutex twice is the fault
  \<open>Deadlock\<close>. A loop that waits for input takes the list of its turns.

  Interfaces. Every component with a state is a \<open>machine\<close> whose invariant holds after any operations
  (\<open>km\<close>, \<open>lg\<close>, \<open>dm\<close>, \<open>lo\<close>, \<open>ip\<close>, \<open>mo\<close>, \<open>ne\<close>, \<open>fu\<close>); the rooms of the generator, the commands of the
  socket daemon and the clients of the integration daemon are a \<open>simulation\<close> of a list of rooms
  (\<open>ls\<close>, \<open>ds\<close>, \<open>sv\<close>); both room tables are a \<open>shrinking_table\<close> (\<open>dt\<close>, \<open>mt\<close>); what a thread does with the
  mutex of the rooms or of the logger is a \<open>critical_section\<close> (\<open>rooms\<close>, \<open>logging\<close>); numbers, requests,
  level names, JSON strings, data lines and raw messages are a \<open>codec\<close> (\<open>decimal\<close>, \<open>wire\<close>, \<open>level\<close>, \<open>json\<close>, \<open>data_line\<close>, \<open>raw\<close>).

  What is shown. Refinements: \<open>commands_refine_service\<close>, \<open>threads_share_one_list\<close>,
  \<open>clients_see_service\<close>, \<open>rooms_refine_list\<close>, \<open>logging_refines_store\<close>,
  \<open>records_never_mix\<close>. End to end: \<open>session_reports_service\<close> for the socket daemon,
  \<open>clients_see_service\<close>, \<open>first_room_request_is_last\<close>, \<open>few_requests_exhaust_daemon\<close> and
  \<open>main_never_ends_well\<close> for the integration daemon, what its configuration file must have
  (\<open>no_log_path_no_daemon\<close>, \<open>no_max_clients_no_service\<close>), and the three properties below for the
  parts that meet. Invariants of tables, slots and interleavings; exact behaviour of the commands on
  every branch; round trips of requests, records, data lines and raw messages; bounds of all
  buffers; what hangs and when (\<open>room_commands_hang\<close>, \<open>only_cleanup_deadlocks\<close>,
  \<open>signal_while_logging_hangs\<close>, \<open>cleanup_can_trap_sampler\<close>), what the cleanup of the socket daemon
  takes away from its threads (\<open>cleanup_destroys_mutex_in_use\<close>) and that of the logger from its callers
  (\<open>late_record_needs_closed_log\<close>), and that they never starve before
  (\<open>waiting_client_gets_mutex\<close>).

  Bounds and fuel. Only \<open>read_to_end\<close> of \<open>KernelModule\<close> takes fuel: a reader that gets at least one
  byte a call needs one call more than the 11 bytes of the message. All other loops are structural
  or have a measure. A thread of the socket daemon leaves its critical section within
  \<open>MAX_ROOMS + 3\<close> steps.

  Assumptions. The kernel functions \<open>copy_from_user\<close> and \<open>simple_read_from_buffer\<close> are parameters with
  their documented contracts. \<^verbatim>\<open>commom/data_structures.h\<close> is empty, so the sizes of arrays, the numbers
  of command types and floating-point operations of the integration daemon are the fields of the
  parameter \<open>platform\<close>; the room and client arrays have the lengths given to \<open>monitor_start\<close> and
  \<open>net_start\<close>. A raw message has the layout of the System V ABI. What clients see is shown for arrays in
  which a name of a request and a response fit (\<open>platform_ok\<close>). The sources of the integration daemon
  do not compile as they are; the model reads \<open>g daemon_state\<close> as \<open>g_daemon_state\<close> and each function as
  defined where it is called.

  Not modelled. Generated code of the kernel build (\<^verbatim>\<open>proc_monitor.mod.c\<close>), test programs and scripts,
  the empty files of \<^verbatim>\<open>commom\<close>, functions that are declared and never defined. The texts the
  socket daemon logs. The values of floating-point numbers. Data races:
  the state steps from one access to the next in one order that all threads see.
\<close>

section \<open>The integration daemon and the kernel module\<close>

lemma monitor_msg_tokens:
  assumes "kmod_inv st"
  shows "strtok_c CHR '' '' (cstr (fst (fgets_c 511 (monitor_msg st)))) =
     [''Monitor:'', (if monitor_enabled st = 1 then ''1'' else ''0'') @ [NL]]"
proof -
  have line: "strtok_c CHR '' '' (cstr (fst (fgets_c 511 (''Monitor: '' @ d @ [NL])))) = [''Monitor:'', d @ [NL]]"
    if "d = ''1'' \<or> d = ''0''" for d
    using that by (elim disjE; hypsubst; code_simp)
  show ?thesis
    using line [of "''1''"] line [of "''0''"] by (simp add: monitor_msg_cases [OF assms])
qed

text \<open>Switching the monitoring of a room on or off, as far as the kernel module is concerned: what the
  daemon writes when it can open the file goes to the handler of the module in one call.\<close>

definition control :: "copy_fn \<Rightarrow> kmod \<Rightarrow> string \<times> int \<Rightarrow> kmod" where
  "control cfu st = (\<lambda>(name, enable).
     case ipc_write_kernel_control True (Some name) enable of
       (_, Some bytes, _) \<Rightarrow> snd (monitor_write cfu st bytes (length bytes))
     | _ \<Rightarrow> st)"

lemma control_switch:
  assumes "copy_from_user_ok cfu" and "\<And>c. fst (cfu [c] 1) = 0"
  shows "control cfu st (name, enable) = st\<lparr>monitor_enabled := if enable \<noteq> 0 then 1 else 0\<rparr>"
proof -
  have digit: "show_int 0 = ''0''" "show_int 1 = ''1''" by code_simp+
  show ?thesis
    using assms(2) by (simp add: control_def ipc_write_kernel_control_def digit monitor_write_cases [OF assms(1)])
qed

section \<open>The client and the integration daemon\<close>

lemma scan_request_verb:
  assumes "scan_s 63 buffer = Some (verb, r)" and "63 < name_size pf"
  shows "\<exists>c'. scan_request pf buffer c = Inr (Some (verb, c'))"
proof (cases "scan_s 63 r")
  case (Some x)
  then obtain name r' where x: "scan_s 63 r = Some (name, r')" by (cases x) simp
  then have "\<not> name_size pf \<le> length name" using scan_s_bound [OF x] assms(2) by simp
  then show ?thesis using assms(1) x by (auto simp: scan_request_def Let_def split: option.splits)
qed (simp add: scan_request_def assms(1))

lemma command_line_verb:
  assumes "command_ok c" and "command_line c = Some line"
  shows "\<exists>verb r. scan_s 63 line = Some (verb, r) \<and> cmd_word verb = None"
proof -
  have first: "scan_s 63 (w @ CHR '' '' # r) = Some (w, CHR '' '' # r)" "scan_s 63 w = Some (w, [])"
    if "w \<in> {''CREATE'', ''START'', ''STOP'', ''SHOW'', ''EXIT''}" for w r
    using that is_word_literal by (auto intro!: scan_s_first)
  have "cmd_word w = None" if "w \<in> {''CREATE'', ''START'', ''STOP'', ''SHOW'', ''EXIT''}" for w
    using that by (auto simp: cmd_word_def)
  then show ?thesis
    using assms first(1) [of "''CREATE''"] first(1) [of "''START''"] first(1) [of "''STOP''"] first(1) [of "''SHOW''"]
      first(2) [of "''EXIT''"]
    by (auto simp: command_line_eq command_ok_def split: command_type.splits)
qed

section \<open>Properties\<close>

text \<open>C18. While the kernel module is loaded, the integration daemon never sees a measurement: whatever
  was written to the module before, reading its entry succeeds and gives zero for every metric, marked
  as valid, because the line has none of the words the daemon looks for.\<close>

theorem kernel_metrics_are_zero:
  "ipc_read_kernel_data pf (fs(SYSMONITOR \<mapsto> monitor_msg (run (kmod_step cfu srb) kmod_zero es))) now
     (Some name) (Some d) ip =
   (let data = (set_name pf name (zero_data pf))\<lparr>d_time := now, d_valid := 1\<rparr>
    in (0, Some data, ip, [(LOG_DEBUG, kernel_log ''Read kernel data: '' pf data)]))"
proof -
  let ?st = "run (kmod_step cfu srb) kmod_zero es"
  have inv: "kmod_inv ?st" by (rule km.inv_reached)
  have "kernel_token pf d t = d" if "t \<in> {''Monitor:'', ''1'' @ [NL], ''0'' @ [NL]}" for d t
    using that by (auto simp: kernel_token_def has_prefix_def strncmp_eq_def)
  then have "foldl (kernel_token pf) d0 (strtok_c CHR '' '' (cstr (fst (fgets_c 511 (monitor_msg ?st))))) = d0" for d0
    unfolding monitor_msg_tokens [OF inv] by simp
  moreover have "monitor_msg ?st \<noteq> []" by (simp add: monitor_msg_cases [OF inv])
  ultimately show ?thesis by (simp add: ipc_read_kernel_data_def Let_def)
qed

text \<open>C19. The module has one switch for all rooms: after any controls the daemon wrote for any rooms, the
  module is on exactly when the last of them was an enable, and its entry says so; stopping one room
  switches the module off for every other.\<close>

theorem last_control_decides:
  assumes "copy_from_user_ok cfu" and "\<And>c. fst (cfu [c] 1) = 0"
  shows "let st = foldl (control cfu) kmod_zero (cs @ [(name, enable)])
    in monitor_enabled st = (if enable \<noteq> 0 then 1 else 0) \<and>
       monitor_msg st = (if enable \<noteq> 0 then ''Monitor: 1'' else ''Monitor: 0'') @ [NL]"
proof -
  have inv: "kmod_inv (control cfu st x)" if "kmod_inv st" for st x
    using that by (cases x) (simp add: control_switch [OF assms] kmod_inv_def)
  have "kmod_inv (foldl (control cfu) st cs)" if "kmod_inv st" for st cs
    using that by (induction cs arbitrary: st) (simp_all add: inv)
  then have "kmod_inv (foldl (control cfu) kmod_zero (cs @ [(name, enable)]))"
    using km.inv_start by blast
  then show ?thesis
    using monitor_msg_cases by (simp add: Let_def control_switch [OF assms])
qed


section \<open>Witnesses\<close>

theorem last_control_decides_witness:
  "let st = foldl (control plain_copy) kmod_zero ([(''a'', 1), (''b'', 1)] @ [(''a'', 0)])
   in monitor_enabled st = (if (0 :: int) \<noteq> 0 then 1 else 0) \<and>
      monitor_msg st = (if (0 :: int) \<noteq> 0 then ''Monitor: 1'' else ''Monitor: 0'') @ [NL]"
  by (rule last_control_decides [OF plain_copy_ok]) (simp add: plain_copy_def)


end
